theory Spec2Isabelle
  imports Complex_Main "HOL-Library.AList"
begin

section \<open>Conventions of the embedding\<close>

text \<open>
  The engine is Python. Its floats are modelled as \<^typ>\<open>real\<close> (exact arithmetic, no
  rounding error, no NaN), its dictionaries as maps or, where the insertion order is
  observable, as association lists, and its exceptions as the left summand of a sum type.
\<close>

subsection \<open>Feature dictionaries\<close>

text \<open>
  A feature dictionary maps feature names to numbers. Python booleans are numbers
  (\<open>True == 1\<close>, \<open>False == 0\<close>), and a value is truthy when it is not zero.
  \<open>f.get(k, d)\<close> is \<open>getd f k d\<close>.
\<close>

type_synonym feature_dict = "string \<rightharpoonup> real"

definition getd :: "feature_dict \<Rightarrow> string \<Rightarrow> real \<Rightarrow> real" where
  "getd f k d = (case f k of None \<Rightarrow> d | Some v \<Rightarrow> v)"

definition truthy :: "real \<Rightarrow> bool" where
  "truthy v = (v \<noteq> 0)"

section \<open>Float score (core/features.py, compute\_features)\<close>



section \<open>Rule-based risk model (core/risk\_model.py)\<close>

definition normalize_to_0_100 :: "real \<Rightarrow> real \<Rightarrow> real \<Rightarrow> real" where
  "normalize_to_0_100 v min_val max_val =
     (if max_val = min_val then 0
      else max 0 (min 100 (((v - min_val) / (max_val - min_val)) * 100)))"

text \<open>The class constant \<open>WEIGHTS\<close>; looking up a key that is not in it raises KeyError,
  which \<open>predict\<close> never does, so the lookup is written with a default that is never used.\<close>

definition WEIGHTS :: "(string \<times> real) list" where
  "WEIGHTS =
     [(''schedule_delay'', 25 / 100),
      (''progress_slip'', 25 / 100),
      (''risk_register'', 10 / 100),
      (''float_criticality'', 20 / 100),
      (''dependency'', 10 / 100),
      (''resource_overload'', 5 / 100),
      (''anomaly'', 5 / 100)]"

definition weight :: "string \<Rightarrow> real" where
  "weight k = (case map_of WEIGHTS k of None \<Rightarrow> 0 | Some w \<Rightarrow> w)"

definition compute_schedule_delay_score :: "feature_dict \<Rightarrow> real" where
  "compute_schedule_delay_score f =
     normalize_to_0_100 (getd f ''delay_baseline_days'' 0) 0 30"

definition compute_progress_slip_score :: "feature_dict \<Rightarrow> real" where
  "compute_progress_slip_score f = getd f ''progress_slip'' 0 * 100"

definition critical_path_bonus :: "real \<Rightarrow> real" where
  "critical_path_bonus float_score =
     (if float_score \<ge> 8 / 10 then 40
      else if float_score \<ge> 6 / 10 then 35
      else if float_score \<ge> 4 / 10 then 30
      else 25)"

definition compute_float_criticality_score :: "feature_dict \<Rightarrow> real" where
  "compute_float_criticality_score f =
     (let float_score = getd f ''float_score'' 0;
          is_on_critical_path = getd f ''is_on_critical_path'' 0;
          base_score = float_score * 100
      in if truthy is_on_critical_path
         then min 100 (base_score + critical_path_bonus float_score)
         else base_score)"

definition compute_risk_register_score :: "feature_dict \<Rightarrow> real" where
  "compute_risk_register_score f =
     (let risk_probability = getd f ''risk_probability'' 0;
          risk_delay_impact = getd f ''risk_delay_impact_days'' 0;
          expected_delay = getd f ''expected_delay_days'' 0;
          probability_score = risk_probability * 50;
          impact_score = normalize_to_0_100 risk_delay_impact 0 30 * (1 / 2);
          expected_delay_score = min 20 (expected_delay * 2)
      in min 100 (probability_score + impact_score + expected_delay_score))"

definition compute_dependency_score :: "feature_dict \<Rightarrow> real" where
  "compute_dependency_score f =
     (let predecessor_count = getd f ''predecessor_count'' 0;
          successor_count = getd f ''successor_count'' 0;
          downstream_depth = getd f ''downstream_critical_depth'' 0;
          s1 = (if predecessor_count \<ge> 5 then 30
                else if predecessor_count \<ge> 3 then 15 else 0);
          s2 = (if successor_count \<ge> 5 then 40
                else if successor_count \<ge> 3 then 25 else 0);
          s3 = (if downstream_depth \<ge> 3 then 30
                else if downstream_depth \<ge> 1 then 15 else 0)
      in min 100 (0 + s1 + s2 + s3))"

definition compute_resource_overload_score :: "feature_dict \<Rightarrow> real" where
  "compute_resource_overload_score f =
     (let fte_ratio = getd f ''fte_ratio'' 0;
          score =
            (if fte_ratio > 1 then min 100 ((fte_ratio - 1) * 100)
             else if fte_ratio > 9 / 10
                  then 60 + ((fte_ratio - 9 / 10) / (1 / 10)) * 40
             else if fte_ratio > 7 / 10
                  then 30 + ((fte_ratio - 7 / 10) / (2 / 10)) * 30
             else (if fte_ratio > 0 then fte_ratio * 30 / (7 / 10) else 0))
      in min 100 (max 0 score))"

definition compute_anomaly_score :: "feature_dict \<Rightarrow> real" where
  "compute_anomaly_score f =
     (let zombie_flag = getd f ''zombie_task_flag'' 0;
          black_hole_flag = getd f ''resource_black_hole_flag'' 0
      in if zombie_flag > 1 / 2 \<or> black_hole_flag > 1 / 2 then 100 else 0)"

text \<open>The local function \<open>normalize_value\<close> of \<open>predict\<close>.\<close>

definition normalize_value :: "real \<Rightarrow> real list \<Rightarrow> real" where
  "normalize_value v all_values =
     (if all_values = [] then 0
      else let min_val = Min (set all_values);
               max_val = Max (set all_values)
           in if max_val = min_val then 0
              else (v - min_val) / (max_val - min_val))"

text \<open>
  \<open>predict\<close>: the raw component scores are computed first; when \<open>project_features\<close> is
  truthy (neither \<open>None\<close> nor empty) and has more than one entry, each score is replaced
  by its min-max normalisation over the population, times 100.
\<close>

definition predict :: "feature_dict \<Rightarrow> feature_dict list option \<Rightarrow> real" where
  "predict f project_features =
     (let schedule_delay_score = compute_schedule_delay_score f;
          progress_slip_score = compute_progress_slip_score f;
          risk_register_score = compute_risk_register_score f;
          float_criticality_score = compute_float_criticality_score f;
          dependency_score = compute_dependency_score f;
          resource_overload_score = compute_resource_overload_score f;
          anomaly_score = compute_anomaly_score f;
          (schedule_delay_score, progress_slip_score, risk_register_score,
           float_criticality_score, dependency_score, resource_overload_score,
           anomaly_score) =
            (case project_features of
               None \<Rightarrow>
                 (schedule_delay_score, progress_slip_score, risk_register_score,
                  float_criticality_score, dependency_score, resource_overload_score,
                  anomaly_score)
             | Some pfs \<Rightarrow>
                 if pfs \<noteq> [] \<and> length pfs > 1
                 then
                   (normalize_value schedule_delay_score
                      (map compute_schedule_delay_score pfs) * 100,
                    normalize_value progress_slip_score
                      (map compute_progress_slip_score pfs) * 100,
                    normalize_value risk_register_score
                      (map compute_risk_register_score pfs) * 100,
                    normalize_value float_criticality_score
                      (map compute_float_criticality_score pfs) * 100,
                    normalize_value dependency_score
                      (map compute_dependency_score pfs) * 100,
                    normalize_value resource_overload_score
                      (map compute_resource_overload_score pfs) * 100,
                    normalize_value anomaly_score
                      (map compute_anomaly_score pfs) * 100)
                 else
                   (schedule_delay_score, progress_slip_score, risk_register_score,
                    float_criticality_score, dependency_score, resource_overload_score,
                    anomaly_score));
          overall_score =
            (weight ''schedule_delay'' * (schedule_delay_score / 100) +
             weight ''progress_slip'' * (progress_slip_score / 100) +
             weight ''risk_register'' * (risk_register_score / 100) +
             weight ''float_criticality'' * (float_criticality_score / 100) +
             weight ''dependency'' * (dependency_score / 100) +
             weight ''resource_overload'' * (resource_overload_score / 100) +
             weight ''anomaly'' * (anomaly_score / 100)) * 100
      in max 0 (min 100 overall_score))"

text \<open>
  The specification's reading of a component: normalised to \<open>[0, 1]\<close> over the project
  population when there is one of at least two activities, and otherwise the raw
  0-100 score taken as a fraction of 100.
\<close>

definition has_population :: "feature_dict list option \<Rightarrow> bool" where
  "has_population project_features =
     (case project_features of None \<Rightarrow> False | Some pfs \<Rightarrow> 2 \<le> length pfs)"


section \<open>Activities (core/models.py)\<close>

text \<open>
  The fields of \<open>Activity\<close> that the engine reads. Optional fields are options; the
  dates are kept as the strings of the input.
\<close>

record activity =
  activity_id :: string
  name :: string
  planned_start :: "string option"
  planned_finish :: "string option"
  planned_duration :: "real option"
  baseline_duration :: "real option"
  remaining_duration :: "real option"
  percent_complete :: real
  risk_probability :: real
  risk_delay_impact_days :: real
  predecessors :: "string list"
  successors :: "string list"
  on_critical_path :: bool
  resource_id :: "string option"
  fte_allocation :: "real option"
  resource_max_fte :: "real option"
  skill_tags :: "string option"

text \<open>
  Python's \<open>x or d\<close> on an optional float: \<open>None\<close> and \<open>0.0\<close> are falsy and give \<open>d\<close>.
\<close>

definition or_else :: "real option \<Rightarrow> real \<Rightarrow> real" where
  "or_else x d = (case x of None \<Rightarrow> d | Some v \<Rightarrow> if v \<noteq> 0 then v else d)"

section \<open>Risk archetypes (core/risk\_clustering.py)\<close>

definition archetypes :: "(int \<times> feature_dict) list" where
  "archetypes =
     [(0, [''failure_probability'' \<mapsto> 5 / 100, ''variance_multiplier'' \<mapsto> 1,
           ''mode_shift_factor'' \<mapsto> 0]),
      (1, [''failure_probability'' \<mapsto> 15 / 100, ''variance_multiplier'' \<mapsto> 12 / 10,
           ''mode_shift_factor'' \<mapsto> 1 / 10]),
      (2, [''failure_probability'' \<mapsto> 30 / 100, ''variance_multiplier'' \<mapsto> 15 / 10,
           ''mode_shift_factor'' \<mapsto> 2 / 10]),
      (3, [''failure_probability'' \<mapsto> 50 / 100, ''variance_multiplier'' \<mapsto> 2,
           ''mode_shift_factor'' \<mapsto> 3 / 10])]"

definition get_risk_archetype_characteristics :: "int \<Rightarrow> feature_dict" where
  "get_risk_archetype_characteristics cluster_id =
     (case map_of archetypes cluster_id of
        Some a \<Rightarrow> a
      | None \<Rightarrow> [''failure_probability'' \<mapsto> 5 / 100, ''variance_multiplier'' \<mapsto> 1,
                  ''mode_shift_factor'' \<mapsto> 0])"

section \<open>Uncertainty modulator (core/uncertainty\_modulator.py)\<close>

text \<open>
  An entry of the enriched feature dictionary is a number or a nested dictionary; the
  modulator tests \<open>isinstance(drift_data, dict)\<close>.
\<close>

datatype feature_value = Num real | Dict feature_dict

record uncertainty_params =
  mode_shift_factor :: real
  variance_multiplier :: real
  failure_probability :: real
  base_duration :: real

definition nested_get :: "(string \<rightharpoonup> feature_value) \<Rightarrow> string \<Rightarrow> string \<Rightarrow> real \<Rightarrow> real" where
  "nested_get enriched_features outer inner d =
     (case (case enriched_features outer of None \<Rightarrow> Dict Map.empty | Some v \<Rightarrow> v) of
        Dict data \<Rightarrow> getd data inner d
      | Num _ \<Rightarrow> d)"

definition activity_base_duration :: "activity \<Rightarrow> real" where
  "activity_base_duration a =
     (let base_duration =
            or_else (remaining_duration a)
              (or_else (planned_duration a) (or_else (baseline_duration a) 1))
      in if base_duration \<le> 0 then 1 else base_duration)"

definition modulate_uncertainty ::
  "activity \<Rightarrow> (string \<rightharpoonup> feature_value) \<Rightarrow> feature_dict \<Rightarrow>
   (string \<rightharpoonup> feature_dict) \<Rightarrow> (string \<rightharpoonup> feature_dict) \<Rightarrow> uncertainty_params" where
  "modulate_uncertainty a enriched_features risk_archetype topology_metrics skill_analysis =
     (let aid = activity_id a;
          base_duration = activity_base_duration a;
          drift_mode_shift = nested_get enriched_features ''drift_velocity'' ''mode_shift_factor'' 0;
          variance_increase_map =
            (case skill_analysis ''variance_increase_map'' of None \<Rightarrow> Map.empty | Some m \<Rightarrow> m);
          skill_variance = getd variance_increase_map aid 1;
          activity_topology =
            (case topology_metrics aid of None \<Rightarrow> Map.empty | Some m \<Rightarrow> m);
          topology_variance = getd activity_topology ''variance_multiplier'' 1;
          archetype_mode_shift = getd risk_archetype ''mode_shift_factor'' 0;
          archetype_variance = getd risk_archetype ''variance_multiplier'' 1;
          archetype_failure_prob = getd risk_archetype ''failure_probability'' 0;
          cpi_failure_prob =
            nested_get enriched_features ''cost_performance'' ''risk_event_probability'' 0;
          total_mode_shift = drift_mode_shift + archetype_mode_shift;
          total_variance_multiplier = skill_variance * topology_variance * archetype_variance;
          total_failure_prob = max archetype_failure_prob cpi_failure_prob
      in \<lparr>mode_shift_factor = total_mode_shift,
          variance_multiplier = total_variance_multiplier,
          failure_probability = total_failure_prob,
          base_duration = base_duration\<rparr>)"

text \<open>
  The parameters of the triangular distribution that
  \<open>simulate_activity_duration_forensic\<close> (core/mc\_forecaster.py) computes from the
  modulator's output: \<open>(min_duration, modulated_mode, max_duration)\<close>.
\<close>

definition forensic_triangle :: "uncertainty_params \<Rightarrow> real \<times> real \<times> real" where
  "forensic_triangle p =
     (let modulated_mode = base_duration p * (1 + mode_shift_factor p);
          base_uncertainty = 2 / 10;
          modulated_uncertainty = min (1 / 2) (base_uncertainty * variance_multiplier p);
          min_duration = modulated_mode * (1 - modulated_uncertainty);
          max_duration = modulated_mode * (1 + modulated_uncertainty);
          min_duration = max (1 / 10) min_duration
      in (min_duration, modulated_mode, max_duration))"

text \<open>The specification's fallback chain, read as Python's \<open>or\<close> reads it.\<close>

definition spec_base_duration :: "activity \<Rightarrow> real" where
  "spec_base_duration a =
     or_else (remaining_duration a)
       (or_else (planned_duration a) (or_else (baseline_duration a) 1))"

definition blank_activity :: activity where
  "blank_activity =
     \<lparr>activity_id = [], name = [], planned_start = None, planned_finish = None,
      planned_duration = None, baseline_duration = None, remaining_duration = None,
      percent_complete = 0, risk_probability = 0, risk_delay_impact_days = 0,
      predecessors = [], successors = [], on_critical_path = False,
      resource_id = None, fte_allocation = Some 0, resource_max_fte = Some 1,
      skill_tags = None\<rparr>"

definition ten_day_activity :: activity where
  "ten_day_activity = blank_activity\<lparr>activity_id := ''A'', remaining_duration := Some 10\<rparr>"

definition negative_remaining_activity :: activity where
  "negative_remaining_activity =
     blank_activity\<lparr>activity_id := ''A'', remaining_duration := Some (- 3),
                    planned_duration := Some 5\<rparr>"


section \<open>Python string helpers\<close>

definition is_space :: "char \<Rightarrow> bool" where
  "is_space c = (c \<in> set [CHR '' '', CHR 0x09, CHR 0x0A, CHR 0x0B, CHR 0x0C, CHR 0x0D,
                            CHR 0x1C, CHR 0x1D, CHR 0x1E, CHR 0x1F])"

definition strip :: "string \<Rightarrow> string" where
  "strip s = rev (dropWhile is_space (rev (dropWhile is_space s)))"




section \<open>Skill constraint engine (core/skill\_analyzer.py)\<close>




record activity_detail =
  d_activity_id :: string
  d_activity_name :: string
  d_fte :: real
  d_start :: int
  d_finish :: int








record bottleneck =
  skill :: string
  b_resource_id :: string
  total_fte_demand :: real
  b_max_fte :: real
  overload_pct :: real
  b_activities :: "string list"
  activity_details :: "activity_detail list"
  time_window :: "int \<times> int"

record skill_analysis_result =
  skill_bottlenecks :: "bottleneck list"
  activity_skill_risks :: "(string \<times> string list) list"
  variance_increase_map :: "(string \<times> real) list"










section \<open>Properties of the risk model\<close>

lemma weight_values:
  "weight ''schedule_delay'' = 25 / 100"
  "weight ''progress_slip'' = 25 / 100"
  "weight ''risk_register'' = 10 / 100"
  "weight ''float_criticality'' = 20 / 100"
  "weight ''dependency'' = 10 / 100"
  "weight ''resource_overload'' = 5 / 100"
  "weight ''anomaly'' = 5 / 100"
  by (simp_all add: weight_def WEIGHTS_def)






lemma weighted_sum_arith:
  fixes a b c d e g h :: real
  shows "(25 / 100 * (a / 100) + 25 / 100 * (b / 100) + 10 / 100 * (c / 100) +
          20 / 100 * (d / 100) + 10 / 100 * (e / 100) + 5 / 100 * (g / 100) +
          5 / 100 * (h / 100)) * 100 =
         100 * (0.25 * (a / 100) + 0.25 * (b / 100) + 0.10 * (c / 100) +
          0.20 * (d / 100) + 0.10 * (e / 100) + 0.05 * (g / 100) + 0.05 * (h / 100))"
  by simp

lemma predict_raw:
  "\<not> (2 \<le> length pfs) \<Longrightarrow> pf = None \<or> pf = Some pfs \<Longrightarrow>
   predict f pf =
     max 0 (min 100
       ((25 / 100 * (compute_schedule_delay_score f / 100) +
         25 / 100 * (compute_progress_slip_score f / 100) +
         10 / 100 * (compute_risk_register_score f / 100) +
         20 / 100 * (compute_float_criticality_score f / 100) +
         10 / 100 * (compute_dependency_score f / 100) +
         5 / 100 * (compute_resource_overload_score f / 100) +
         5 / 100 * (compute_anomaly_score f / 100)) * 100))"
  unfolding predict_def Let_def weight_values
  by (auto simp del: max.absorb1 max.absorb2 min.absorb1 min.absorb2)

lemma predict_population:
  "2 \<le> length pfs \<Longrightarrow>
   predict f (Some pfs) =
     max 0 (min 100
       ((25 / 100 * (normalize_value (compute_schedule_delay_score f) (map compute_schedule_delay_score pfs) * 100 / 100) +
         25 / 100 * (normalize_value (compute_progress_slip_score f) (map compute_progress_slip_score pfs) * 100 / 100) +
         10 / 100 * (normalize_value (compute_risk_register_score f) (map compute_risk_register_score pfs) * 100 / 100) +
         20 / 100 * (normalize_value (compute_float_criticality_score f) (map compute_float_criticality_score pfs) * 100 / 100) +
         10 / 100 * (normalize_value (compute_dependency_score f) (map compute_dependency_score pfs) * 100 / 100) +
         5 / 100 * (normalize_value (compute_resource_overload_score f) (map compute_resource_overload_score pfs) * 100 / 100) +
         5 / 100 * (normalize_value (compute_anomaly_score f) (map compute_anomaly_score pfs) * 100 / 100)) * 100))"
proof -
  assume "2 \<le> length pfs"
  then have c: "pfs \<noteq> [] \<and> length pfs > 1" by auto
  show ?thesis
    unfolding predict_def Let_def weight_values option.case if_P[OF c] prod.case
    by (rule refl)
qed






lemma normalize_value_degenerate:
  assumes "\<forall>p\<in>set pfs. \<forall>q\<in>set pfs. score p = score q"
  shows "normalize_value v (map score pfs) = 0"
proof (cases pfs)
  case Nil
  then show ?thesis by (simp add: normalize_value_def)
next
  case (Cons p ps)
  then have pin: "p \<in> set pfs" by simp
  have a: "\<And>q. q \<in> set pfs \<Longrightarrow> score q = score p"
    using assms pin by blast
  have "score ` set pfs = {score p}"
    using a pin by blast
  then have s: "set (map score pfs) = {score p}" by simp
  show ?thesis
    unfolding normalize_value_def Let_def s by simp
qed




lemma predict_None_raw:
  "predict f None =
     max 0 (min 100 (100 *
       (0.25 * (compute_schedule_delay_score f / 100) +
        0.25 * (compute_progress_slip_score f / 100) +
        0.10 * (compute_risk_register_score f / 100) +
        0.20 * (compute_float_criticality_score f / 100) +
        0.10 * (compute_dependency_score f / 100) +
        0.05 * (compute_resource_overload_score f / 100) +
        0.05 * (compute_anomaly_score f / 100))))"
proof -
  have r: "\<not> 2 \<le> length ([] :: feature_dict list)" by simp
  show ?thesis
    unfolding predict_raw[OF r disjI1[OF refl]] weighted_sum_arith
    by (rule refl)
qed

lemma predict_degenerate:
  assumes "2 \<le> length pfs" and "\<forall>p\<in>set pfs. \<forall>q\<in>set pfs. p = q"
  shows "predict f (Some pfs) = 0"
proof -
  have d: "normalize_value v (map score pfs) = 0" for v and score :: "feature_dict \<Rightarrow> real"
  proof (rule normalize_value_degenerate)
    show "\<forall>p\<in>set pfs. \<forall>q\<in>set pfs. score p = score q"
    proof (intro ballI)
      fix p q
      assume "p \<in> set pfs" "q \<in> set pfs"
      then have "p = q" using assms(2) by blast
      then show "score p = score q" by simp
    qed
  qed
  show ?thesis
    unfolding predict_population[OF assms(1)] d by simp
qed

subsection \<open>Sample feature dictionaries\<close>

definition delayed_critical_features :: feature_dict where
  "delayed_critical_features =
     [''delay_baseline_days'' \<mapsto> 15, ''float_score'' \<mapsto> 1, ''is_on_critical_path'' \<mapsto> 1]"

lemma delayed_critical_scores:
  "compute_schedule_delay_score delayed_critical_features = 50"
  "compute_progress_slip_score delayed_critical_features = 0"
  "compute_risk_register_score delayed_critical_features = 0"
  "compute_float_criticality_score delayed_critical_features = 100"
  "compute_dependency_score delayed_critical_features = 0"
  "compute_resource_overload_score delayed_critical_features = 0"
  "compute_anomaly_score delayed_critical_features = 0"
  by (simp_all add: delayed_critical_features_def compute_schedule_delay_score_def
      compute_progress_slip_score_def compute_risk_register_score_def
      compute_float_criticality_score_def compute_dependency_score_def
      compute_resource_overload_score_def compute_anomaly_score_def
      normalize_to_0_100_def getd_def truthy_def critical_path_bonus_def Let_def)


lemma delayed_critical_predict: "predict delayed_critical_features None = 65 / 2"
  unfolding predict_None_raw delayed_critical_scores by simp

section \<open>Claims about the risk scorer and the float score\<close>





text \<open>
  C10. When the scorer is given a population of at least two activities in which every
  activity has the same raw value for a component, min-max normalisation maps that
  component to 0 (not to its raw value); so when all activities of the population have
  identical features, every activity is scored 0, however severe the shared raw scores.
\<close>

theorem degenerate_population_scores_zero:
  assumes "2 \<le> length pfs"
  shows "((\<forall>p\<in>set pfs. \<forall>q\<in>set pfs. score p = score q) \<longrightarrow>
            normalize_value (score f) (map score pfs) = 0) \<and>
         ((\<forall>p\<in>set pfs. \<forall>q\<in>set pfs. p = q) \<longrightarrow>
            (\<forall>a\<in>set pfs. predict a (Some pfs) = 0))"
  using assms normalize_value_degenerate[of pfs score "score f"] predict_degenerate[of pfs]
  by blast

theorem degenerate_population_scores_zero_witness:
  "2 \<le> length [delayed_critical_features, delayed_critical_features] \<and>
   normalize_value (compute_schedule_delay_score delayed_critical_features)
     (map compute_schedule_delay_score [delayed_critical_features, delayed_critical_features]) = 0 \<and>
   compute_schedule_delay_score delayed_critical_features = 50 \<and>
   predict delayed_critical_features
     (Some [delayed_critical_features, delayed_critical_features]) = 0 \<and>
   predict delayed_critical_features None = 65 / 2"
  using degenerate_population_scores_zero
    [of "[delayed_critical_features, delayed_critical_features]"
        compute_schedule_delay_score delayed_critical_features]
    delayed_critical_scores(1) delayed_critical_predict
  by simp

section \<open>Properties of the modulator and the skill analyzer\<close>

lemma modulate_fields:
  "mode_shift_factor (modulate_uncertainty a ef arch topo sk) =
     nested_get ef ''drift_velocity'' ''mode_shift_factor'' 0 + getd arch ''mode_shift_factor'' 0"
  "variance_multiplier (modulate_uncertainty a ef arch topo sk) =
     getd (case sk ''variance_increase_map'' of None \<Rightarrow> Map.empty | Some m \<Rightarrow> m) (activity_id a) 1 *
     getd (case topo (activity_id a) of None \<Rightarrow> Map.empty | Some m \<Rightarrow> m) ''variance_multiplier'' 1 *
     getd arch ''variance_multiplier'' 1"
  "failure_probability (modulate_uncertainty a ef arch topo sk) =
     max (getd arch ''failure_probability'' 0)
         (nested_get ef ''cost_performance'' ''risk_event_probability'' 0)"
  "base_duration (modulate_uncertainty a ef arch topo sk) = activity_base_duration a"
  by (simp_all add: modulate_uncertainty_def Let_def)

lemma activity_base_duration_floor:
  "activity_base_duration a =
     (if spec_base_duration a \<le> 0 then 1 else spec_base_duration a)"
  by (simp add: activity_base_duration_def spec_base_duration_def Let_def)

lemma forensic_mode:
  "fst (snd (forensic_triangle p)) = base_duration p * (1 + mode_shift_factor p)"
  by (simp add: forensic_triangle_def Let_def)

lemma archetype2:
  "getd (get_risk_archetype_characteristics 2) ''mode_shift_factor'' 0 = 2 / 10"
  by (simp add: get_risk_archetype_characteristics_def archetypes_def getd_def)

lemma ten_day_base: "activity_base_duration ten_day_activity = 10"
  by (simp add: activity_base_duration_def ten_day_activity_def blank_activity_def or_else_def Let_def)

lemma no_drift: "nested_get Map.empty ''drift_velocity'' ''mode_shift_factor'' 0 = 0"
  by (simp add: nested_get_def getd_def)

lemma scenario_E:
  "fst (snd (forensic_triangle
     (modulate_uncertainty ten_day_activity Map.empty (get_risk_archetype_characteristics 2)
        Map.empty Map.empty))) = 12"
  unfolding forensic_mode modulate_fields ten_day_base no_drift archetype2 by simp

lemma negative_base:
  "activity_base_duration negative_remaining_activity = 1"
  "spec_base_duration negative_remaining_activity = - 3"
  by (simp_all add: activity_base_duration_def spec_base_duration_def
      negative_remaining_activity_def blank_activity_def or_else_def Let_def)



































section \<open>Claims about the uncertainty modulator and the skill analyzer\<close>

text \<open>
  C6 (as the code has it). The uncertainty modulator combines its inputs by fixed rules:
  the mode shift is the drift mode-shift factor plus the archetype's (each 0 when
  absent); the variance multiplier is the product of the skill, topology and archetype
  variance multipliers (each 1 when absent); the failure probability is the maximum of
  the archetype's and the cost risk-event probability. The base duration is the first of
  remaining, planned and baseline duration that is present and not zero, else 1, and any
  value that is not positive is replaced by 1. The forensic simulation's modulated mode
  is \<open>base_duration * (1 + mode_shift)\<close>; for an activity with remaining duration 10, no
  drift and archetype 2 it is \<open>10 * (1 + 0.2) = 12\<close>.
\<close>

theorem modulate_uncertainty_rules:
  "mode_shift_factor (modulate_uncertainty a ef arch topo sk) =
     nested_get ef ''drift_velocity'' ''mode_shift_factor'' 0 + getd arch ''mode_shift_factor'' 0 \<and>
   variance_multiplier (modulate_uncertainty a ef arch topo sk) =
     getd (case sk ''variance_increase_map'' of None \<Rightarrow> Map.empty | Some m \<Rightarrow> m) (activity_id a) 1 *
     getd (case topo (activity_id a) of None \<Rightarrow> Map.empty | Some m \<Rightarrow> m) ''variance_multiplier'' 1 *
     getd arch ''variance_multiplier'' 1 \<and>
   failure_probability (modulate_uncertainty a ef arch topo sk) =
     max (getd arch ''failure_probability'' 0)
         (nested_get ef ''cost_performance'' ''risk_event_probability'' 0) \<and>
   base_duration (modulate_uncertainty a ef arch topo sk) =
     (if spec_base_duration a \<le> 0 then 1 else spec_base_duration a) \<and>
   fst (snd (forensic_triangle p)) = base_duration p * (1 + mode_shift_factor p) \<and>
   base_duration (modulate_uncertainty ten_day_activity Map.empty
       (get_risk_archetype_characteristics 2) Map.empty Map.empty) = 10 \<and>
   mode_shift_factor (modulate_uncertainty ten_day_activity Map.empty
       (get_risk_archetype_characteristics 2) Map.empty Map.empty) = 0.2 \<and>
   fst (snd (forensic_triangle
     (modulate_uncertainty ten_day_activity Map.empty (get_risk_archetype_characteristics 2)
        Map.empty Map.empty))) = 12"
  unfolding modulate_fields activity_base_duration_floor[symmetric] forensic_mode
    ten_day_base no_drift archetype2
  by simp

text \<open>
  C6 as stated fails on the base duration: with remaining duration \<open>-3\<close> and planned
  duration 5 the modulator returns 1, which is neither the remaining nor the planned
  duration.
\<close>

theorem modulate_base_duration_counterexample:
  "remaining_duration negative_remaining_activity = Some (- 3) \<and>
   planned_duration negative_remaining_activity = Some 5 \<and>
   spec_base_duration negative_remaining_activity = - 3 \<and>
   base_duration (modulate_uncertainty negative_remaining_activity Map.empty
     (get_risk_archetype_characteristics 0) Map.empty Map.empty) = 1 \<and>
   base_duration (modulate_uncertainty negative_remaining_activity Map.empty
     (get_risk_archetype_characteristics 0) Map.empty Map.empty)
     \<noteq> spec_base_duration negative_remaining_activity"
  unfolding modulate_fields negative_base
  by (simp add: negative_remaining_activity_def blank_activity_def)




section \<open>Exceptions\<close>

text \<open>
  The exceptions that can reach the engine. In networkx \<open>NetworkXUnfeasible\<close> derives
  from \<open>NetworkXAlgorithmError\<close> and \<open>NetworkXError\<close> has no subclass among these, so
  a handler \<open>except nx.NetworkXError\<close> catches exactly \<open>NetworkXError\<close>.
\<close>

datatype py_exception =
  NetworkXError | NetworkXUnfeasible | RuntimeError | ValueError | AttributeError

definition caught_by_NetworkXError :: "py_exception \<Rightarrow> bool" where
  "caught_by_NetworkXError e = (e = NetworkXError)"

section \<open>Directed graphs (networkx.DiGraph)\<close>

text \<open>
  A \<open>DiGraph\<close> keeps its nodes and, per node, its successors and predecessors in
  insertion order; the model keeps the nodes and the edges in insertion order, without
  duplicates.
\<close>

record digraph =
  nodes :: "string list"
  edges :: "(string \<times> string) list"

definition empty_graph :: digraph where
  "empty_graph = \<lparr>nodes = [], edges = []\<rparr>"

definition add_node :: "string \<Rightarrow> digraph \<Rightarrow> digraph" where
  "add_node n g = (if n \<in> set (nodes g) then g else g\<lparr>nodes := nodes g @ [n]\<rparr>)"

definition add_edge :: "string \<Rightarrow> string \<Rightarrow> digraph \<Rightarrow> digraph" where
  "add_edge u v g =
     (let g1 = add_node v (add_node u g)
      in if (u, v) \<in> set (edges g1) then g1 else g1\<lparr>edges := edges g1 @ [(u, v)]\<rparr>)"

definition graph_successors :: "digraph \<Rightarrow> string \<Rightarrow> string list" where
  "graph_successors g n = map snd (filter (\<lambda>e. fst e = n) (edges g))"

definition graph_predecessors :: "digraph \<Rightarrow> string \<Rightarrow> string list" where
  "graph_predecessors g n = map fst (filter (\<lambda>e. snd e = n) (edges g))"

definition in_degree :: "digraph \<Rightarrow> string \<Rightarrow> int" where
  "in_degree g v = int (length (graph_predecessors g v))"

subsection \<open>networkx.topological\_sort\<close>

text \<open>
  \<open>topological_sort\<close> yields the nodes of \<open>topological_generations\<close>: the nodes of
  in-degree zero form the first generation; visiting the successors of a generation
  decrements their remaining in-degree, and those that reach zero form the next one.
  If nodes with a positive remaining in-degree are left, \<open>NetworkXUnfeasible\<close> is raised.
\<close>

fun visit_children ::
  "(string \<times> int) list \<Rightarrow> string list \<Rightarrow> string list \<Rightarrow>
   py_exception + ((string \<times> int) list \<times> string list)" where
  "visit_children indegree_map zero_indegree [] = Inr (indegree_map, zero_indegree)"
| "visit_children indegree_map zero_indegree (child # cs) =
     (case map_of indegree_map child of
        None \<Rightarrow> Inl RuntimeError
      | Some d \<Rightarrow>
          if d - 1 = 0
          then visit_children (AList.delete child indegree_map) (zero_indegree @ [child]) cs
          else visit_children (AList.update child (d - 1) indegree_map) zero_indegree cs)"

fun visit_generation ::
  "digraph \<Rightarrow> (string \<times> int) list \<Rightarrow> string list \<Rightarrow> string list \<Rightarrow>
   py_exception + ((string \<times> int) list \<times> string list)" where
  "visit_generation g indegree_map zero_indegree [] = Inr (indegree_map, zero_indegree)"
| "visit_generation g indegree_map zero_indegree (node # ns) =
     (if node \<notin> set (nodes g) then Inl RuntimeError
      else case visit_children indegree_map zero_indegree (graph_successors g node) of
             Inl e \<Rightarrow> Inl e
           | Inr (m, z) \<Rightarrow> visit_generation g m z ns)"

lemma visit_children_length:
  "visit_children m z cs = Inr (m', z') \<Longrightarrow> length m' + length z' \<le> length m + length z"
proof (induction cs arbitrary: m z)
  case Nil
  then show ?case by simp
next
  case (Cons c cs)
  from Cons.prems obtain d where d: "map_of m c = Some d"
    by (cases "map_of m c") auto
  then have "(c, d) \<in> set m" by (rule map_of_SomeD)
  then have k: "c \<in> fst ` set m" by force
  show ?case
  proof (cases "d - 1 = 0")
    case True
    with Cons.prems d have "visit_children (AList.delete c m) (z @ [c]) cs = Inr (m', z')"
      by simp
    from Cons.IH[OF this] have "length m' + length z' \<le> length (AList.delete c m) + length z + 1"
      by simp
    moreover have "length (AList.delete c m) < length m"
      unfolding AList.delete_eq using \<open>(c, d) \<in> set m\<close> by (intro length_filter_less[of "(c, d)"]) auto
    ultimately show ?thesis by simp
  next
    case False
    with Cons.prems d have "visit_children (AList.update c (d - 1) m) z cs = Inr (m', z')"
      by simp
    moreover have "length (AList.update c (d - 1) m) = length m"
    proof -
      have "length (map fst (AList.update c (d - 1) m)) = length (map fst m)"
        unfolding update_keys using k by simp
      then show ?thesis by simp
    qed
    ultimately show ?thesis
      using Cons.IH[of "AList.update c (d - 1) m" z] by simp
  qed
qed

lemma visit_generation_length:
  "visit_generation g m z ns = Inr (m', z') \<Longrightarrow> length m' + length z' \<le> length m + length z"
proof (induction ns arbitrary: m z)
  case Nil
  then show ?case by simp
next
  case (Cons n ns)
  from Cons.prems obtain m1 z1 where
    1: "visit_children m z (graph_successors g n) = Inr (m1, z1)"
    and 2: "visit_generation g m1 z1 ns = Inr (m', z')"
    by (auto split: if_splits sum.splits)
  from visit_children_length[OF 1] Cons.IH[OF 2] show ?case by simp
qed

function topological_generations_loop ::
  "digraph \<Rightarrow> (string \<times> int) list \<Rightarrow> string list \<Rightarrow> py_exception + string list list" where
  "topological_generations_loop g indegree_map zero_indegree =
     (if zero_indegree = []
      then (if indegree_map \<noteq> [] then Inl NetworkXUnfeasible else Inr [])
      else case visit_generation g indegree_map [] zero_indegree of
             Inl e \<Rightarrow> Inl e
           | Inr (m, next_generation) \<Rightarrow>
               (case topological_generations_loop g m next_generation of
                  Inl e \<Rightarrow> Inl e
                | Inr rest \<Rightarrow> Inr (zero_indegree # rest)))"
  by pat_completeness auto
termination
proof (relation "measure (\<lambda>(g, m, z). 2 * length m + (if z = [] then 0 else 1))", goal_cases)
  case 1
  then show ?case by simp
next
  case (2 g m z x2 m' z')
  then have "visit_generation g m [] z = Inr (m', z')" by simp
  from visit_generation_length[OF this] have "length m' + length z' \<le> length m" by simp
  then show ?case using 2 by (cases z') auto
qed

declare topological_generations_loop.simps [simp del]

definition topological_sort :: "digraph \<Rightarrow> py_exception + string list" where
  "topological_sort g =
     (let indegree_map = filter (\<lambda>(v, d). d > 0) (map (\<lambda>v. (v, in_degree g v)) (nodes g));
          zero_indegree = map fst (filter (\<lambda>(v, d). d = 0) (map (\<lambda>v. (v, in_degree g v)) (nodes g)))
      in case topological_generations_loop g indegree_map zero_indegree of
           Inl e \<Rightarrow> Inl e
         | Inr generations \<Rightarrow> Inr (concat generations))"

section \<open>Digital twin (core/digital\_twin.py)\<close>

record digital_twin =
  activities :: "(string \<times> activity) list"
  graph :: digraph
  has_cycles :: bool
  cycle_warning :: "string option"

text \<open>\<open>{a.activity_id: a for a in activities}\<close>: a later activity with the same id replaces
  the value and keeps the place of the first.\<close>

definition activities_dict :: "activity list \<Rightarrow> (string \<times> activity) list" where
  "activities_dict as = fold (\<lambda>a. AList.update (activity_id a) a) as []"

definition add_activity_edges :: "activity \<Rightarrow> digraph \<Rightarrow> digraph" where
  "add_activity_edges a g =
     fold (\<lambda>p g'. if strip p \<noteq> [] then add_edge p (activity_id a) g' else g')
       (predecessors a) (add_node (activity_id a) g)"

definition build_graph :: "(string \<times> activity) list \<Rightarrow> digraph" where
  "build_graph adict = fold (\<lambda>(k, a). add_activity_edges a) adict empty_graph"

fun join :: "string \<Rightarrow> string list \<Rightarrow> string" where
  "join sep [] = []"
| "join sep [x] = x"
| "join sep (x # y # ys) = x @ sep @ join sep (y # ys)"

definition generic_cycle_warning :: string where
  "generic_cycle_warning =
     ''Graph contains cycles. Critical path calculations may be approximate.''"

definition cycle_warning_of :: "string list list option \<Rightarrow> string" where
  "cycle_warning_of cycles =
     (case cycles of
        None \<Rightarrow> generic_cycle_warning
      | Some [] \<Rightarrow> generic_cycle_warning
      | Some (c # _) \<Rightarrow>
          (let cycle_str = join '' -> '' (take 5 c);
               cycle_str = (if length c > 5 then cycle_str @ ''...'' else cycle_str)
           in ''Graph contains cycles (e.g., '' @ cycle_str @
              ''). Critical path calculations may be approximate.''))"

text \<open>
  \<open>DigitalTwin.__init__\<close>. \<open>simple_cycles\<close> stands for \<open>nx.simple_cycles\<close>, giving the
  list of cycles or \<open>None\<close> when it raises (the inner handler is a bare \<open>except\<close>).
  The outer handler is \<open>except nx.NetworkXError\<close>; any other exception of
  \<open>topological_sort\<close> leaves the constructor.
\<close>

definition DigitalTwin ::
  "(digraph \<Rightarrow> string list list option) \<Rightarrow> activity list \<Rightarrow> py_exception + digital_twin" where
  "DigitalTwin simple_cycles as =
     (let adict = activities_dict as;
          g = build_graph adict
      in case topological_sort g of
           Inr order \<Rightarrow>
             Inr \<lparr>activities = adict, graph = g, has_cycles = False, cycle_warning = None\<rparr>
         | Inl e \<Rightarrow>
             if caught_by_NetworkXError e
             then Inr \<lparr>activities = adict, graph = g, has_cycles = True,
                       cycle_warning = Some (cycle_warning_of (simple_cycles g))\<rparr>
             else Inl e)"

section \<open>Critical path (core/mc\_forecaster.py)\<close>

definition forward_step ::
  "digraph \<Rightarrow> (string \<times> real) list \<Rightarrow> string \<Rightarrow>
   (string \<times> real) list \<times> (string \<times> real) list \<Rightarrow>
   (string \<times> real) list \<times> (string \<times> real) list" where
  "forward_step g simulated_durations node st =
     (case st of (earliest_start, earliest_finish) \<Rightarrow>
        case map_of simulated_durations node of
          None \<Rightarrow> (earliest_start, earliest_finish)
        | Some d \<Rightarrow>
            let pred_finishes =
                  map (\<lambda>p. case map_of earliest_finish p of None \<Rightarrow> 0 | Some x \<Rightarrow> x)
                    (graph_predecessors g node);
                es = (if pred_finishes \<noteq> [] then Max (set pred_finishes) else 0)
            in (AList.update node es earliest_start,
                AList.update node (es + d) earliest_finish))"

definition forward_pass ::
  "digraph \<Rightarrow> (string \<times> real) list \<Rightarrow> string list \<Rightarrow>
   (string \<times> real) list \<times> (string \<times> real) list" where
  "forward_pass g simulated_durations topo_order =
     fold (forward_step g simulated_durations) topo_order ([], [])"

definition max_values :: "(string \<times> real) list \<Rightarrow> real" where
  "max_values d = (if d \<noteq> [] then Max (set (map snd d)) else 0)"

definition compute_critical_path_length ::
  "digraph \<Rightarrow> (string \<times> real) list \<Rightarrow> py_exception + real" where
  "compute_critical_path_length g simulated_durations =
     (case topological_sort g of
        Inl e \<Rightarrow>
          if caught_by_NetworkXError e then Inr (max_values simulated_durations) else Inl e
      | Inr topo_order \<Rightarrow>
          Inr (max_values (snd (forward_pass g simulated_durations topo_order))))"

definition backward_step ::
  "digraph \<Rightarrow> (string \<times> real) list \<Rightarrow> real \<Rightarrow> string \<Rightarrow>
   (string \<times> real) list \<times> (string \<times> real) list \<Rightarrow>
   (string \<times> real) list \<times> (string \<times> real) list" where
  "backward_step g simulated_durations project_finish node st =
     (case st of (latest_start, latest_finish) \<Rightarrow>
        case map_of simulated_durations node of
          None \<Rightarrow> (latest_start, latest_finish)
        | Some d \<Rightarrow>
            let succ_starts =
                  map (\<lambda>s. case map_of latest_start s of None \<Rightarrow> project_finish | Some x \<Rightarrow> x)
                    (graph_successors g node);
                lf = (if succ_starts \<noteq> [] then Min (set succ_starts) else project_finish)
            in (AList.update node (lf - d) latest_start,
                AList.update node lf latest_finish))"

definition backward_pass ::
  "digraph \<Rightarrow> (string \<times> real) list \<Rightarrow> real \<Rightarrow> string list \<Rightarrow>
   (string \<times> real) list \<times> (string \<times> real) list" where
  "backward_pass g simulated_durations project_finish topo_order =
     fold (backward_step g simulated_durations project_finish) (rev topo_order) ([], [])"

definition is_critical ::
  "(string \<times> real) list \<Rightarrow> (string \<times> real) list \<Rightarrow> (string \<times> real) list \<Rightarrow>
   real \<Rightarrow> string \<Rightarrow> bool" where
  "is_critical simulated_durations earliest_start latest_start project_finish node =
     (map_of simulated_durations node \<noteq> None \<and>
      (let es = (case map_of earliest_start node of None \<Rightarrow> 0 | Some x \<Rightarrow> x);
           ls = (case map_of latest_start node of None \<Rightarrow> project_finish | Some x \<Rightarrow> x)
       in \<bar>es - ls\<bar> < 1 / 100))"

definition compute_critical_path_activities ::
  "digraph \<Rightarrow> (string \<times> real) list \<Rightarrow> py_exception + string set" where
  "compute_critical_path_activities g simulated_durations =
     (case topological_sort g of
        Inl e \<Rightarrow> if caught_by_NetworkXError e then Inr {} else Inl e
      | Inr topo_order \<Rightarrow>
          (let (earliest_start, earliest_finish) = forward_pass g simulated_durations topo_order;
               project_finish = max_values earliest_finish;
               (latest_start, latest_finish) =
                 backward_pass g simulated_durations project_finish topo_order
           in Inr (set (filter
                 (is_critical simulated_durations earliest_start latest_start project_finish)
                 topo_order))))"

section \<open>Sample schedules\<close>

definition chain_activities :: "activity list" where
  "chain_activities =
     [blank_activity\<lparr>activity_id := ''A'', planned_duration := Some 5\<rparr>,
      blank_activity\<lparr>activity_id := ''B'', planned_duration := Some 3,
                     predecessors := [''A'']\<rparr>]"

definition cyclic_activities :: "activity list" where
  "cyclic_activities =
     [blank_activity\<lparr>activity_id := ''A'', planned_duration := Some 5,
                     predecessors := [''B'']\<rparr>,
      blank_activity\<lparr>activity_id := ''B'', planned_duration := Some 3,
                     predecessors := [''A'']\<rparr>]"

definition chain_graph :: digraph where
  "chain_graph = \<lparr>nodes = [''A'', ''B''], edges = [(''A'', ''B'')]\<rparr>"

definition cyclic_graph :: digraph where
  "cyclic_graph = \<lparr>nodes = [''A'', ''B''], edges = [(''B'', ''A''), (''A'', ''B'')]\<rparr>"

lemma build_chain: "build_graph (activities_dict chain_activities) = chain_graph"
  by (simp add: build_graph_def activities_dict_def chain_activities_def blank_activity_def
      add_activity_edges_def add_node_def add_edge_def empty_graph_def chain_graph_def
      strip_def is_space_def Let_def)

lemma build_cyclic: "build_graph (activities_dict cyclic_activities) = cyclic_graph"
  by (simp add: build_graph_def activities_dict_def cyclic_activities_def blank_activity_def
      add_activity_edges_def add_node_def add_edge_def empty_graph_def cyclic_graph_def
      strip_def is_space_def Let_def)

lemma topo_chain: "topological_sort chain_graph = Inr [''A'', ''B'']"
  by (simp add: topological_sort_def chain_graph_def in_degree_def graph_predecessors_def
      graph_successors_def topological_generations_loop.simps Let_def)

lemma topo_cyclic: "topological_sort cyclic_graph = Inl NetworkXUnfeasible"
  by (simp add: topological_sort_def cyclic_graph_def in_degree_def graph_predecessors_def
      graph_successors_def topological_generations_loop.simps Let_def)

section \<open>Monte Carlo forecaster (core/mc\_forecaster.py)\<close>

text \<open>
  numpy's global generator is an explicit state of type \<open>'r\<close>; the three samplers used
  are parameters. \<open>np.random.triangular\<close> raises \<open>ValueError\<close> when
  \<open>left > mode\<close>, \<open>mode > right\<close> or \<open>left == right\<close>.
\<close>

record 'r rng_ops =
  triangular :: "real \<Rightarrow> real \<Rightarrow> real \<Rightarrow> 'r \<Rightarrow> real \<times> 'r"
  random_sample :: "'r \<Rightarrow> real \<times> 'r"
  uniform :: "real \<Rightarrow> real \<Rightarrow> 'r \<Rightarrow> real \<times> 'r"

definition np_triangular ::
  "'r rng_ops \<Rightarrow> real \<Rightarrow> real \<Rightarrow> real \<Rightarrow> 'r \<Rightarrow> py_exception + (real \<times> 'r)" where
  "np_triangular ops left mode right s =
     (if left > mode then Inl ValueError
      else if mode > right then Inl ValueError
      else if left = right then Inl ValueError
      else Inr (triangular ops left mode right s))"

definition simulate_activity_duration_forensic ::
  "'r rng_ops \<Rightarrow> uncertainty_params \<Rightarrow> 'r \<Rightarrow> py_exception + (real \<times> 'r)" where
  "simulate_activity_duration_forensic ops p s =
     (case forensic_triangle p of (min_duration, modulated_mode, max_duration) \<Rightarrow>
        case np_triangular ops min_duration modulated_mode max_duration s of
          Inl e \<Rightarrow> Inl e
        | Inr (duration, s1) \<Rightarrow>
            let (duration, s3) =
                  (if failure_probability p > 0
                   then (case random_sample ops s1 of (u, s2) \<Rightarrow>
                           if u < failure_probability p
                           then (case uniform ops (1 / 2) 1 s2 of (failure_delay, s3) \<Rightarrow>
                                   (duration * (1 + failure_delay), s3))
                           else (duration, s2))
                   else (duration, s1))
            in Inr (max (1 / 10) duration, s3))"

definition standard_triangle :: "activity \<Rightarrow> real \<times> real \<times> real" where
  "standard_triangle a =
     (let base_duration = activity_base_duration a;
          risk_prob = or_else (Some (risk_probability a)) 0;
          risk_delay_impact = or_else (Some (risk_delay_impact_days a)) 0;
          expected_delay = risk_prob * risk_delay_impact;
          uncertainty_from_risk =
            (if expected_delay > 0 \<and> base_duration > 0
             then min (1 / 2) (expected_delay / base_duration) else 0);
          global_uncertainty = 2 / 10;
          uncertainty = max global_uncertainty uncertainty_from_risk;
          min_duration = base_duration * (1 - uncertainty);
          mode_duration = base_duration;
          max_duration = base_duration * (1 + uncertainty);
          min_duration = max (1 / 10) min_duration
      in (min_duration, mode_duration, max_duration))"

definition simulate_activity_duration ::
  "'r rng_ops \<Rightarrow> activity \<Rightarrow> uncertainty_params option \<Rightarrow> 'r \<Rightarrow>
   py_exception + (real \<times> 'r)" where
  "simulate_activity_duration ops a uncertainty_params s =
     (case uncertainty_params of
        Some p \<Rightarrow> simulate_activity_duration_forensic ops p s
      | None \<Rightarrow>
          (case standard_triangle a of (min_duration, mode_duration, max_duration) \<Rightarrow>
             case np_triangular ops min_duration mode_duration max_duration s of
               Inl e \<Rightarrow> Inl e
             | Inr (duration, s1) \<Rightarrow> Inr (max (1 / 10) duration, s1)))"

text \<open>The inner loop of a run: one duration per activity, in dictionary order.\<close>

fun simulate_all ::
  "'r rng_ops \<Rightarrow> (string \<rightharpoonup> uncertainty_params) option \<Rightarrow> (string \<times> activity) list \<Rightarrow>
   'r \<Rightarrow> py_exception + ((string \<times> real) list \<times> 'r)" where
  "simulate_all ops pm [] s = Inr ([], s)"
| "simulate_all ops pm ((aid, a) # rest) s =
     (case simulate_activity_duration ops a
             (case pm of None \<Rightarrow> None | Some m \<Rightarrow> m aid) s of
        Inl e \<Rightarrow> Inl e
      | Inr (d, s1) \<Rightarrow>
          (case simulate_all ops pm rest s1 of
             Inl e \<Rightarrow> Inl e
           | Inr (ds, s2) \<Rightarrow> Inr ((aid, d) # ds, s2)))"

text \<open>The outer loop \<open>for _ in range(num_simulations)\<close>, with its two accumulators.\<close>

fun mc_loop ::
  "'r rng_ops \<Rightarrow> digital_twin \<Rightarrow> (string \<rightharpoonup> uncertainty_params) option \<Rightarrow> nat \<Rightarrow>
   real list \<times> (string \<times> nat) list \<Rightarrow> 'r \<Rightarrow>
   py_exception + ((real list \<times> (string \<times> nat) list) \<times> 'r)" where
  "mc_loop ops twin pm 0 acc s = Inr (acc, s)"
| "mc_loop ops twin pm (Suc n) acc s =
     (case simulate_all ops pm (activities twin) s of
        Inl e \<Rightarrow> Inl e
      | Inr (simulated_durations, s1) \<Rightarrow>
          (case compute_critical_path_length (graph twin) simulated_durations of
             Inl e \<Rightarrow> Inl e
           | Inr project_duration \<Rightarrow>
               (case compute_critical_path_activities (graph twin) simulated_durations of
                  Inl e \<Rightarrow> Inl e
                | Inr critical_activities \<Rightarrow>
                    mc_loop ops twin pm n
                      (fst acc @ [project_duration],
                       map (\<lambda>(k, c). (k, if k \<in> critical_activities then c + 1 else c)) (snd acc))
                      s1)))"

text \<open>
  \<open>np.percentile\<close> with the default linear interpolation, for a non-empty sample and
  \<open>0 \<le> q \<le> 100\<close>; \<open>int()\<close> truncates towards zero.
\<close>

definition percentile :: "real list \<Rightarrow> real \<Rightarrow> real" where
  "percentile xs q =
     (let sorted_xs = sort xs;
          n = length sorted_xs;
          virtual_index = (real n - 1) * (q / 100);
          previous_index = nat \<lfloor>virtual_index\<rfloor>;
          next_index = min (previous_index + 1) (n - 1);
          gamma = virtual_index - of_int \<lfloor>virtual_index\<rfloor>;
          lo = sorted_xs ! previous_index;
          hi = sorted_xs ! next_index
      in lo + (hi - lo) * gamma)"

definition py_int :: "real \<Rightarrow> int" where
  "py_int x = (if x \<ge> 0 then \<lfloor>x\<rfloor> else \<lceil>x\<rceil>)"

definition np_mean :: "real list \<Rightarrow> real" where
  "np_mean xs = sum_list xs / real (length xs)"

definition np_std :: "real list \<Rightarrow> real" where
  "np_std xs = sqrt (np_mean (map (\<lambda>x. (x - np_mean xs)\<^sup>2) xs))"

definition current_progress :: "(string \<times> activity) list \<Rightarrow> real" where
  "current_progress adict =
     (let progress_values =
            map (\<lambda>(k, a). max 0 (min 100 (or_else (Some (percent_complete a)) 0))) adict;
          weights =
            map (\<lambda>(k, a). or_else (planned_duration a) (or_else (baseline_duration a) 1)) adict;
          weighted = filter (\<lambda>(pc, w). w > 0) (zip progress_values weights);
          total_weight = sum_list (map snd weighted);
          weighted_progress = sum_list (map (\<lambda>(pc, w). (pc / 100) * w) weighted);
          current_v =
            (if total_weight > 0 then weighted_progress / total_weight
             else if progress_values \<noteq> []
                  then (sum_list progress_values / real (length progress_values)) / 100
                  else 0);
          current_v = max 0 (min 1 current_v)
      in current_v * 100)"

record forecast =
  p50 :: int
  p80 :: int
  p90 :: int
  p95 :: int
  fc_mean :: real
  fc_std :: real
  fc_min :: real
  fc_max :: real
  current :: real
  criticality_indices :: "(string \<times> real) list"
  num_simulations :: nat
  forensic_modulation_applied :: bool

definition monte_carlo_forecast ::
  "'r rng_ops \<Rightarrow> digital_twin \<Rightarrow> nat \<Rightarrow> (string \<rightharpoonup> uncertainty_params) option \<Rightarrow> 'r \<Rightarrow>
   py_exception + (forecast \<times> 'r)" where
  "monte_carlo_forecast ops twin n pm s =
     (case mc_loop ops twin pm n ([], map (\<lambda>(k, a). (k, 0)) (activities twin)) s of
        Inl e \<Rightarrow> Inl e
      | Inr ((project_durations, criticality_counts), s1) \<Rightarrow>
          if project_durations = [] then Inl ValueError
          else Inr
            (\<lparr>p50 = py_int (percentile project_durations 50),
              p80 = py_int (percentile project_durations 80),
              p90 = py_int (percentile project_durations 90),
              p95 = py_int (percentile project_durations 95),
              fc_mean = np_mean project_durations,
              fc_std = np_std project_durations,
              fc_min = Min (set project_durations),
              fc_max = Max (set project_durations),
              current = current_progress (activities twin),
              criticality_indices =
                map (\<lambda>(k, c). (k, real c / real n)) criticality_counts,
              num_simulations = n,
              forensic_modulation_applied = (pm \<noteq> None)\<rparr>, s1))"

text \<open>A generator for examples: every draw is the mode (or the lower bound), and the
  state counts the draws.\<close>

definition mode_ops :: "nat rng_ops" where
  "mode_ops = \<lparr>triangular = (\<lambda>l m r s. (m, Suc s)),
               random_sample = (\<lambda>s. (1 / 2, Suc s)),
               uniform = (\<lambda>l h s. (l, Suc s))\<rparr>"

section \<open>Twin cache and forensic forecast (core/digital\_twin.py, core/forensic\_forecast.py)\<close>

text \<open>The module-level dictionary \<open>DIGITAL_TWINS\<close> is an explicit state.\<close>

definition get_or_build_twin ::
  "(digraph \<Rightarrow> string list list option) \<Rightarrow> string \<Rightarrow> activity list option \<Rightarrow>
   (string \<rightharpoonup> digital_twin) \<Rightarrow>
   (py_exception + digital_twin) \<times> (string \<rightharpoonup> digital_twin)" where
  "get_or_build_twin simple_cycles project_id as_opt DIGITAL_TWINS =
     (case DIGITAL_TWINS project_id of
        Some twin \<Rightarrow> (Inr twin, DIGITAL_TWINS)
      | None \<Rightarrow>
          (case as_opt of
             None \<Rightarrow> (Inl ValueError, DIGITAL_TWINS)
           | Some as \<Rightarrow>
               (case DigitalTwin simple_cycles as of
                  Inl e \<Rightarrow> (Inl e, DIGITAL_TWINS)
                | Inr twin \<Rightarrow> (Inr twin, DIGITAL_TWINS(project_id \<mapsto> twin)))))"

text \<open>
  The loop of \<open>compute_forensic_forecast\<close> that builds the parameter map. It passes the
  activity's own topology dictionary (metric name to number) where the modulator expects
  the dictionary of all activities and looks the activity id up once more: the second
  lookup finds nothing, unless the id is itself a metric name, in which case the
  modulator calls \<open>.get\<close> on a number and \<open>AttributeError\<close> is raised.
\<close>

fun build_params ::
  "activity list \<Rightarrow> (string \<rightharpoonup> (string \<rightharpoonup> feature_value)) \<Rightarrow> (string \<rightharpoonup> feature_dict) \<Rightarrow>
   (string \<rightharpoonup> feature_dict) \<Rightarrow> (string \<rightharpoonup> feature_dict) \<Rightarrow>
   (string \<rightharpoonup> uncertainty_params) \<Rightarrow> py_exception + (string \<rightharpoonup> uncertainty_params)" where
  "build_params [] enriched_features risk_archetypes topology_metrics skill_analysis pm = Inr pm"
| "build_params (a # as) enriched_features risk_archetypes topology_metrics skill_analysis pm =
     (let aid = activity_id a;
          features = (case enriched_features aid of None \<Rightarrow> Map.empty | Some f \<Rightarrow> f);
          archetype = (case risk_archetypes aid of
                         None \<Rightarrow> get_risk_archetype_characteristics 0 | Some r \<Rightarrow> r);
          topology = (case topology_metrics aid of None \<Rightarrow> Map.empty | Some t \<Rightarrow> t)
      in if topology aid \<noteq> None then Inl AttributeError
         else build_params as enriched_features risk_archetypes topology_metrics skill_analysis
                (pm(aid \<mapsto> modulate_uncertainty a features archetype Map.empty skill_analysis)))"

definition compute_forensic_forecast ::
  "'r rng_ops \<Rightarrow> (digraph \<Rightarrow> string list list option) \<Rightarrow> string \<Rightarrow> activity list \<Rightarrow>
   (string \<rightharpoonup> (string \<rightharpoonup> feature_value)) \<Rightarrow> (string \<rightharpoonup> feature_dict) \<Rightarrow>
   (string \<rightharpoonup> feature_dict) \<Rightarrow> (string \<rightharpoonup> feature_dict) \<Rightarrow> nat \<Rightarrow>
   (string \<rightharpoonup> digital_twin) \<times> 'r \<Rightarrow>
   (py_exception + forecast) \<times> (string \<rightharpoonup> digital_twin) \<times> 'r" where
  "compute_forensic_forecast ops simple_cycles project_id as enriched_features risk_archetypes
       topology_metrics skill_analysis n st =
     (case st of (DIGITAL_TWINS, s) \<Rightarrow>
        case get_or_build_twin simple_cycles project_id (Some as) DIGITAL_TWINS of
          (Inl e, cache) \<Rightarrow> (Inl e, cache, s)
        | (Inr twin, cache) \<Rightarrow>
            (case build_params as enriched_features risk_archetypes topology_metrics
                    skill_analysis Map.empty of
               Inl e \<Rightarrow> (Inl e, cache, s)
             | Inr pm \<Rightarrow>
                 (case monte_carlo_forecast ops twin n (Some pm) s of
                    Inl e \<Rightarrow> (Inl e, cache, s)
                  | Inr (fc, s1) \<Rightarrow> (Inr fc, cache, s1))))"

definition single_activity :: "activity list" where
  "single_activity = [blank_activity\<lparr>activity_id := ''A'', planned_duration := Some 5\<rparr>]"

definition no_cycles :: "digraph \<Rightarrow> string list list option" where
  "no_cycles g = Some []"

definition single_graph :: digraph where
  "single_graph = \<lparr>nodes = [''A''], edges = []\<rparr>"

lemma build_single: "build_graph (activities_dict single_activity) = single_graph"
  by (simp add: build_graph_def activities_dict_def single_activity_def blank_activity_def
      add_activity_edges_def add_node_def add_edge_def empty_graph_def single_graph_def
      strip_def is_space_def Let_def)

lemma topo_single: "topological_sort single_graph = Inr [''A'']"
  by (simp add: topological_sort_def single_graph_def in_degree_def graph_predecessors_def
      graph_successors_def topological_generations_loop.simps Let_def)

lemma twin_cyclic: "DigitalTwin sc cyclic_activities = Inl NetworkXUnfeasible"
  by (simp add: DigitalTwin_def build_cyclic topo_cyclic caught_by_NetworkXError_def Let_def)

lemma twin_chain:
  "DigitalTwin sc chain_activities =
     Inr \<lparr>activities = activities_dict chain_activities, graph = chain_graph,
          has_cycles = False, cycle_warning = None\<rparr>"
  by (simp add: DigitalTwin_def build_chain topo_chain Let_def)

lemma twin_single:
  "DigitalTwin sc single_activity =
     Inr \<lparr>activities = activities_dict single_activity, graph = single_graph,
          has_cycles = False, cycle_warning = None\<rparr>"
  by (simp add: DigitalTwin_def build_single topo_single Let_def)

lemma length_cyclic:
  "compute_critical_path_length cyclic_graph [(''A'', 5), (''B'', 3)] = Inl NetworkXUnfeasible"
  "compute_critical_path_activities cyclic_graph [(''A'', 5), (''B'', 3)] = Inl NetworkXUnfeasible"
  by (simp_all add: compute_critical_path_length_def compute_critical_path_activities_def
      topo_cyclic caught_by_NetworkXError_def)

lemma chain_forward:
  "forward_pass chain_graph [(''A'', 5), (''B'', 3)] [''A'', ''B''] =
     ([(''A'', 0), (''B'', 5)], [(''A'', 5), (''B'', 8)])"
  by (simp add: forward_pass_def forward_step_def chain_graph_def graph_predecessors_def Let_def)

lemma chain_backward:
  "backward_pass chain_graph [(''A'', 5), (''B'', 3)] 8 [''A'', ''B''] =
     ([(''B'', 5), (''A'', 0)], [(''B'', 8), (''A'', 5)])"
  by (simp add: backward_pass_def backward_step_def chain_graph_def graph_successors_def Let_def)

lemma chain_length:
  "compute_critical_path_length chain_graph [(''A'', 5), (''B'', 3)] = Inr 8"
  by (simp add: compute_critical_path_length_def topo_chain chain_forward max_values_def)

lemma chain_critical:
  "compute_critical_path_activities chain_graph [(''A'', 5), (''B'', 3)] = Inr {''A'', ''B''}"
  by (simp add: compute_critical_path_activities_def topo_chain chain_forward max_values_def
      chain_backward is_critical_def Let_def)

definition five_day_params :: uncertainty_params where
  "five_day_params = \<lparr>mode_shift_factor = 0, variance_multiplier = 1,
                        failure_probability = 5 / 100, base_duration = 5\<rparr>"

definition three_day_params :: uncertainty_params where
  "three_day_params = \<lparr>mode_shift_factor = 0, variance_multiplier = 1,
                         failure_probability = 5 / 100, base_duration = 3\<rparr>"

lemma archetype0:
  "getd (get_risk_archetype_characteristics 0) ''mode_shift_factor'' 0 = 0"
  "getd (get_risk_archetype_characteristics 0) ''variance_multiplier'' 1 = 1"
  "getd (get_risk_archetype_characteristics 0) ''failure_probability'' 0 = 5 / 100"
  by (simp_all add: get_risk_archetype_characteristics_def archetypes_def getd_def)

lemma modulate_plain:
  "modulate_uncertainty a Map.empty (get_risk_archetype_characteristics 0) Map.empty Map.empty =
     \<lparr>mode_shift_factor = 0, variance_multiplier = 1, failure_probability = 5 / 100,
      base_duration = activity_base_duration a\<rparr>"
  unfolding modulate_uncertainty_def Let_def archetype0
  by (simp add: nested_get_def getd_def)

lemma base_5: "activity_base_duration (blank_activity\<lparr>activity_id := ''A'', planned_duration := Some 5\<rparr>) = 5"
  by (simp add: activity_base_duration_def blank_activity_def or_else_def Let_def)

lemma base_3: "activity_base_duration (blank_activity\<lparr>activity_id := ''B'', planned_duration := Some 3,
                     predecessors := [''A'']\<rparr>) = 3"
  by (simp add: activity_base_duration_def blank_activity_def or_else_def Let_def)

lemma params_single:
  "build_params single_activity Map.empty Map.empty Map.empty Map.empty Map.empty =
     Inr [''A'' \<mapsto> five_day_params]"
  unfolding single_activity_def
  by (simp add: Let_def modulate_plain base_5 five_day_params_def)

lemma params_chain:
  "build_params chain_activities Map.empty Map.empty Map.empty Map.empty Map.empty =
     Inr [''A'' \<mapsto> five_day_params, ''B'' \<mapsto> three_day_params]"
  unfolding chain_activities_def
  by (simp add: Let_def modulate_plain base_5 base_3 five_day_params_def three_day_params_def)

lemma simulate_five:
  "simulate_activity_duration mode_ops a (Some five_day_params) s = Inr (5, Suc (Suc s))"
  by (simp add: simulate_activity_duration_def simulate_activity_duration_forensic_def
      forensic_triangle_def five_day_params_def np_triangular_def mode_ops_def Let_def)

lemma simulate_three:
  "simulate_activity_duration mode_ops a (Some three_day_params) s = Inr (3, Suc (Suc s))"
  by (simp add: simulate_activity_duration_def simulate_activity_duration_forensic_def
      forensic_triangle_def three_day_params_def np_triangular_def mode_ops_def Let_def)

lemma dict_single:
  "activities_dict single_activity =
     [(''A'', blank_activity\<lparr>activity_id := ''A'', planned_duration := Some 5\<rparr>)]"
  by (simp add: activities_dict_def single_activity_def)

lemma dict_chain:
  "activities_dict chain_activities =
     [(''A'', blank_activity\<lparr>activity_id := ''A'', planned_duration := Some 5\<rparr>),
      (''B'', blank_activity\<lparr>activity_id := ''B'', planned_duration := Some 3,
                     predecessors := [''A'']\<rparr>)]"
  by (simp add: activities_dict_def chain_activities_def blank_activity_def)

lemma single_length:
  "compute_critical_path_length single_graph [(''A'', 5)] = Inr 5"
  "compute_critical_path_activities single_graph [(''A'', 5)] = Inr {''A''}"
  unfolding compute_critical_path_length_def compute_critical_path_activities_def topo_single
  by (simp_all add: forward_pass_def forward_step_def backward_pass_def backward_step_def
      single_graph_def graph_predecessors_def graph_successors_def max_values_def
      is_critical_def Let_def)

lemma percentile_single: "percentile [x] q = x"
  by (simp add: percentile_def Let_def)

definition single_twin :: digital_twin where
  "single_twin = \<lparr>activities = activities_dict single_activity, graph = single_graph,
                   has_cycles = False, cycle_warning = None\<rparr>"

definition chain_twin :: digital_twin where
  "chain_twin = \<lparr>activities = activities_dict chain_activities, graph = chain_graph,
                   has_cycles = False, cycle_warning = None\<rparr>"

lemma loop_single_twin:
  "m ''A'' = Some five_day_params \<Longrightarrow>
   mc_loop mode_ops single_twin (Some m) (Suc 0) ([], [(''A'', 0)]) s =
     Inr (([5], [(''A'', 1)]), Suc (Suc s))"
  by (simp add: single_twin_def dict_single simulate_five single_length)

lemma loop_chain_twin:
  "m ''A'' = Some five_day_params \<Longrightarrow> m ''B'' = Some three_day_params \<Longrightarrow>
   mc_loop mode_ops chain_twin (Some m) (Suc 0) ([], [(''A'', 0), (''B'', 0)]) s =
     Inr (([8], [(''A'', 1), (''B'', 1)]), Suc (Suc (Suc (Suc s))))"
  by (simp add: chain_twin_def dict_chain simulate_five simulate_three chain_length chain_critical)

lemma zero_counts:
  "map (\<lambda>(k, a). (k, 0::nat)) (activities single_twin) = [(''A'', 0)]"
  "map (\<lambda>(k, a). (k, 0::nat)) (activities chain_twin) = [(''A'', 0), (''B'', 0)]"
  by (simp_all add: single_twin_def chain_twin_def dict_single dict_chain)

lemma forecast_single_twin:
  assumes "m ''A'' = Some five_day_params"
  shows "map_sum id (\<lambda>(fc, s). (p50 fc, p80 fc, p90 fc, p95 fc, criticality_indices fc))
     (monte_carlo_forecast mode_ops single_twin (Suc 0) (Some m) s) =
     Inr (5, 5, 5, 5, [(''A'', 1)])"
  unfolding monte_carlo_forecast_def zero_counts loop_single_twin[of m, OF assms]
  by (simp add: percentile_single py_int_def)

lemma forecast_chain_twin:
  assumes "m ''A'' = Some five_day_params" and "m ''B'' = Some three_day_params"
  shows "map_sum id (\<lambda>(fc, s). (p50 fc, p80 fc, p90 fc, p95 fc, criticality_indices fc))
     (monte_carlo_forecast mode_ops chain_twin (Suc 0) (Some m) s) =
     Inr (8, 8, 8, 8, [(''A'', 1), (''B'', 1)])"
  unfolding monte_carlo_forecast_def zero_counts loop_chain_twin[of m, OF assms]
  by (simp add: percentile_single py_int_def)

lemma gob_fresh_single:
  "get_or_build_twin sc ''P1'' (Some single_activity) Map.empty =
     (Inr single_twin, [''P1'' \<mapsto> single_twin])"
  by (simp add: get_or_build_twin_def twin_single single_twin_def)

lemma gob_fresh_chain:
  "get_or_build_twin sc ''P1'' (Some chain_activities) Map.empty =
     (Inr chain_twin, [''P1'' \<mapsto> chain_twin])"
  by (simp add: get_or_build_twin_def twin_chain chain_twin_def)

lemma gob_cached:
  "cache pid = Some twin \<Longrightarrow> get_or_build_twin sc pid as_opt cache = (Inr twin, cache)"
  by (simp add: get_or_build_twin_def)

lemma gob_cyclic:
  "get_or_build_twin sc ''P1'' (Some cyclic_activities) Map.empty =
     (Inl NetworkXUnfeasible, Map.empty)"
  by (simp add: get_or_build_twin_def twin_cyclic)

lemma cff_with_twin:
  assumes "get_or_build_twin sc pid (Some as) cache = (Inr twin, cache')"
    and "build_params as ef ra tm sk Map.empty = Inr pm"
  shows "map_sum id p50 (fst (compute_forensic_forecast ops sc pid as ef ra tm sk n (cache, s))) =
           map_sum id (\<lambda>(fc, s). p50 fc) (monte_carlo_forecast ops twin n (Some pm) s)"
    and "fst (snd (compute_forensic_forecast ops sc pid as ef ra tm sk n (cache, s))) = cache'"
  unfolding compute_forensic_forecast_def prod.case assms sum.case
  by (cases "monte_carlo_forecast ops twin n (Some pm) s"; simp add: case_prod_beta)+

lemma cff_raises:
  assumes "get_or_build_twin sc pid (Some as) cache = (Inl e, cache')"
  shows "fst (compute_forensic_forecast ops sc pid as ef ra tm sk n (cache, s)) = Inl e"
  unfolding compute_forensic_forecast_def prod.case assms sum.case by simp

lemma p50_of_tuple:
  "map_sum id (\<lambda>(fc, s). (p50 fc, p80 fc, p90 fc, p95 fc, criticality_indices fc)) r =
     Inr (a, b, c, d, e) \<Longrightarrow>
   map_sum id (\<lambda>(fc, s). p50 fc) r = Inr a"
  by (cases r) auto

lemma twins_differ: "single_twin \<noteq> chain_twin"
proof
  assume "single_twin = chain_twin"
  then have "graph single_twin = graph chain_twin" by simp
  then show False by (simp add: single_twin_def chain_twin_def single_graph_def chain_graph_def)
qed

text \<open>
  C1. For an activity set whose dependency graph has a cycle the claim promises a twin
  with \<open>has_cycles\<close> set, a warning, and a forecast. In the code the cycle is reported by
  \<open>topological_sort\<close> as \<open>NetworkXUnfeasible\<close>, which the handlers
  \<open>except nx.NetworkXError\<close> do not catch: for the two activities A and B that each name
  the other as predecessor, building the twin raises, and so do the critical-path
  routines on that graph and the forecast pipeline.
\<close>

theorem cyclic_graph_raises:
  "build_graph (activities_dict cyclic_activities) = cyclic_graph \<and>
   topological_sort cyclic_graph = Inl NetworkXUnfeasible \<and>
   \<not> caught_by_NetworkXError NetworkXUnfeasible \<and>
   DigitalTwin simple_cycles cyclic_activities = Inl NetworkXUnfeasible \<and>
   compute_critical_path_length cyclic_graph [(''A'', 5), (''B'', 3)] = Inl NetworkXUnfeasible \<and>
   compute_critical_path_activities cyclic_graph [(''A'', 5), (''B'', 3)] =
     Inl NetworkXUnfeasible \<and>
   fst (compute_forensic_forecast ops simple_cycles ''P1'' cyclic_activities
          ef ra tm sk n (Map.empty, s)) = Inl NetworkXUnfeasible"
  using build_cyclic topo_cyclic twin_cyclic[of simple_cycles] length_cyclic
    cff_raises[OF gob_cyclic, of ops simple_cycles ef ra tm sk n s]
  by (simp add: caught_by_NetworkXError_def)

text \<open>
  C5. The claim promises that a later call with the same project id and changed activity
  data is computed from the new data. \<open>get_or_build_twin\<close> returns the twin cached
  under the project id whatever activities are passed: after a forecast for project P1
  with the single activity A (5 days), the forecast for P1 with the chain A (5 days)
  then B (3 days) runs on the cached twin of the first call and reports 5 days, where a
  fresh cache gives 8.
\<close>

theorem stale_twin_after_data_change:
  "fst (snd (compute_forensic_forecast mode_ops no_cycles ''P1'' single_activity
        Map.empty Map.empty Map.empty Map.empty (Suc 0) (Map.empty, s0)))
     = [''P1'' \<mapsto> single_twin] \<and>
   get_or_build_twin no_cycles ''P1'' (Some chain_activities) [''P1'' \<mapsto> single_twin]
     = (Inr single_twin, [''P1'' \<mapsto> single_twin]) \<and>
   DigitalTwin no_cycles chain_activities = Inr chain_twin \<and>
   single_twin \<noteq> chain_twin \<and>
   map_sum id p50 (fst (compute_forensic_forecast mode_ops no_cycles ''P1'' chain_activities
        Map.empty Map.empty Map.empty Map.empty (Suc 0) ([''P1'' \<mapsto> single_twin], s)))
     = Inr 5 \<and>
   map_sum id p50 (fst (compute_forensic_forecast mode_ops no_cycles ''P1'' chain_activities
        Map.empty Map.empty Map.empty Map.empty (Suc 0) (Map.empty, s)))
     = Inr 8"
proof -
  have c: "[''P1'' \<mapsto> single_twin] ''P1'' = Some single_twin" by simp
  note g = gob_cached[of "[''P1'' \<mapsto> single_twin]" "''P1''" single_twin no_cycles
      "Some chain_activities", OF c]
  have a: "[''A'' \<mapsto> five_day_params, ''B'' \<mapsto> three_day_params] ''A'' = Some five_day_params"
    by simp
  have b: "[''A'' \<mapsto> five_day_params, ''B'' \<mapsto> three_day_params] ''B'' = Some three_day_params"
    by simp
  have 1: "fst (snd (compute_forensic_forecast mode_ops no_cycles ''P1'' single_activity
        Map.empty Map.empty Map.empty Map.empty (Suc 0) (Map.empty, s0)))
     = [''P1'' \<mapsto> single_twin]"
    by (rule cff_with_twin(2)[OF gob_fresh_single params_single])
  have 2: "map_sum id p50 (fst (compute_forensic_forecast mode_ops no_cycles ''P1'' chain_activities
        Map.empty Map.empty Map.empty Map.empty (Suc 0) ([''P1'' \<mapsto> single_twin], s)))
     = Inr 5"
    unfolding cff_with_twin(1)[OF g params_chain]
    by (rule p50_of_tuple[OF forecast_single_twin[of "[''A'' \<mapsto> five_day_params, ''B'' \<mapsto> three_day_params]", OF a]])
  have 3: "map_sum id p50 (fst (compute_forensic_forecast mode_ops no_cycles ''P1'' chain_activities
        Map.empty Map.empty Map.empty Map.empty (Suc 0) (Map.empty, s)))
     = Inr 8"
    unfolding cff_with_twin(1)[OF gob_fresh_chain params_chain]
    by (rule p50_of_tuple[OF forecast_chain_twin[of "[''A'' \<mapsto> five_day_params, ''B'' \<mapsto> three_day_params]", OF a b]])
  show ?thesis
    using 1 2 3 g twins_differ twin_chain[of no_cycles] unfolding chain_twin_def[symmetric]
    by blast
qed

section \<open>Properties of the forecaster\<close>



























section \<open>Claims about the forecaster\<close>



section \<open>The forecast depends on the generator only through its draws\<close>

text \<open>
  Two generators, each with its own state, draw alike from a pair of states when a
  relation \<open>R\<close> between their states is kept by each of the three samplers and related
  states give equal draws. Seeding one generator twice with the same seed is the case
  where \<open>R\<close> is equality.
\<close>

definition same_draws :: "'a rng_ops \<Rightarrow> 'b rng_ops \<Rightarrow> ('a \<Rightarrow> 'b \<Rightarrow> bool) \<Rightarrow> bool" where
  "same_draws ops1 ops2 R =
     (\<forall>s1 s2. R s1 s2 \<longrightarrow>
        (\<forall>l m r. fst (triangular ops1 l m r s1) = fst (triangular ops2 l m r s2) \<and>
                 R (snd (triangular ops1 l m r s1)) (snd (triangular ops2 l m r s2))) \<and>
        fst (random_sample ops1 s1) = fst (random_sample ops2 s2) \<and>
        R (snd (random_sample ops1 s1)) (snd (random_sample ops2 s2)) \<and>
        (\<forall>l h. fst (uniform ops1 l h s1) = fst (uniform ops2 l h s2) \<and>
               R (snd (uniform ops1 l h s1)) (snd (uniform ops2 l h s2))))"















lemma same_draws_refl: "same_draws ops ops (=)"
  by (simp add: same_draws_def)

text \<open>
  A generator whose draws depend on its state: the first triangular draw of a fresh
  generator is the mode, every later one the right end of the triangle.
\<close>

definition ramp_ops :: "nat rng_ops" where
  "ramp_ops = \<lparr>triangular = (\<lambda>l m r s. (if s = 0 then m else r, Suc s)),
               random_sample = (\<lambda>s. (1 / 2, Suc s)),
               uniform = (\<lambda>l h s. (l, Suc s))\<rparr>"

lemma simulate_five_ramp:
  "simulate_activity_duration ramp_ops a (Some five_day_params) s =
     Inr (if s = 0 then 5 else 6, Suc (Suc s))"
  by (simp add: simulate_activity_duration_def simulate_activity_duration_forensic_def
      forensic_triangle_def five_day_params_def np_triangular_def ramp_ops_def Let_def)

lemma single_length_any:
  "compute_critical_path_length single_graph [(''A'', d)] = Inr d"
  "compute_critical_path_activities single_graph [(''A'', d)] = Inr {''A''}"
  unfolding compute_critical_path_length_def compute_critical_path_activities_def topo_single
  by (simp_all add: forward_pass_def forward_step_def backward_pass_def backward_step_def
      single_graph_def graph_predecessors_def graph_successors_def max_values_def
      is_critical_def Let_def)

lemma loop_single_ramp:
  "mc_loop ramp_ops single_twin (Some [''A'' \<mapsto> five_day_params]) (Suc 0) ([], [(''A'', 0)]) s =
     Inr (([if s = 0 then 5 else 6], [(''A'', 1)]), Suc (Suc s))"
  by (simp add: single_twin_def dict_single simulate_five_ramp single_length_any)

lemma forecast_single_ramp:
  "map_sum id (\<lambda>(fc, s). (p50 fc, s))
     (monte_carlo_forecast ramp_ops single_twin (Suc 0) (Some [''A'' \<mapsto> five_day_params]) s) =
     Inr (if s = 0 then 5 else 6, Suc (Suc s))"
  unfolding monte_carlo_forecast_def zero_counts loop_single_ramp
  by (simp add: percentile_single py_int_def)

text \<open>
  The generator state is threaded through the runs: a second run that starts where the
  first one stopped, without the generator being seeded again, gives another forecast.
\<close>

lemma unseeded_runs_differ:
  "\<exists>fc1 s1 fc2 s2.
     monte_carlo_forecast ramp_ops single_twin (Suc 0) (Some [''A'' \<mapsto> five_day_params]) 0 =
       Inr (fc1, s1) \<and>
     monte_carlo_forecast ramp_ops single_twin (Suc 0) (Some [''A'' \<mapsto> five_day_params]) s1 =
       Inr (fc2, s2) \<and>
     p50 fc1 = 5 \<and> p50 fc2 = 6"
proof -
  let ?run = "monte_carlo_forecast ramp_ops single_twin (Suc 0) (Some [''A'' \<mapsto> five_day_params])"
  have r: "\<exists>fc. ?run s = Inr (fc, Suc (Suc s)) \<and> p50 fc = (if s = 0 then 5 else 6)" for s
  proof (cases "?run s")
    case (Inl e)
    with forecast_single_ramp[of s] show ?thesis by simp
  next
    case (Inr x)
    obtain fc t where x: "x = (fc, t)" by (cases x)
    from forecast_single_ramp[of s] show ?thesis unfolding Inr x by simp
  qed
  from r[of 0] obtain fc1 where 1: "?run 0 = Inr (fc1, Suc (Suc 0))" "p50 fc1 = 5" by auto
  from r[of "Suc (Suc 0)"] obtain fc2 where
    2: "?run (Suc (Suc 0)) = Inr (fc2, Suc (Suc (Suc (Suc 0))))" "p50 fc2 = 6" by auto
  from 1 2 show ?thesis by blast
qed





section \<open>Correctness of the topological sort\<close>

text \<open>
  The invariant of a \<open>DiGraph\<close>: every node and every edge is kept once, and both ends
  of an edge are nodes. \<open>add_node\<close> and \<open>add_edge\<close> keep it.
\<close>

definition wf_digraph :: "digraph \<Rightarrow> bool" where
  "wf_digraph g =
     (distinct (nodes g) \<and> distinct (edges g) \<and>
      (\<forall>e\<in>set (edges g). fst e \<in> set (nodes g) \<and> snd e \<in> set (nodes g)))"

text \<open>
  The number of edges into \<open>v\<close> that are not yet visited (\<open>X\<close> is the set of visited
  edges), and the invariant of \<open>indegree_map\<close>: it holds exactly the nodes with an
  unvisited incoming edge, each with the number of those edges.
\<close>

definition remaining :: "digraph \<Rightarrow> (string \<times> string) set \<Rightarrow> string \<Rightarrow> nat" where
  "remaining g X v = length (filter (\<lambda>e. snd e = v \<and> e \<notin> X) (edges g))"

definition kahn_inv :: "digraph \<Rightarrow> (string \<times> int) list \<Rightarrow> (string \<times> string) set \<Rightarrow> bool" where
  "kahn_inv g m X =
     ((\<forall>v d. map_of m v = Some d \<longrightarrow> d = int (remaining g X v) \<and> d \<noteq> 0) \<and>
      (\<forall>e\<in>set (edges g). e \<notin> X \<longrightarrow> map_of m (snd e) \<noteq> None))"

lemma filter_remove_one:
  "distinct xs \<Longrightarrow> e \<in> set xs \<Longrightarrow> P e \<Longrightarrow>
   length (filter (\<lambda>x. P x \<and> x \<noteq> e) xs) + 1 = length (filter P xs)"
proof (induction xs)
  case Nil
  then show ?case by simp
next
  case (Cons x xs)
  show ?case
  proof (cases "x = e")
    case True
    then have "e \<notin> set xs" using Cons.prems(1) by simp
    then have "filter (\<lambda>x. P x \<and> x \<noteq> e) xs = filter P xs"
      by (intro filter_cong) auto
    then show ?thesis using True Cons.prems(3) by simp
  next
    case False
    then have "e \<in> set xs" using Cons.prems(2) by simp
    from Cons.IH[OF _ this Cons.prems(3)] Cons.prems(1) False show ?thesis by simp
  qed
qed

lemma remaining_insert_same:
  assumes "distinct (edges g)" "e \<in> set (edges g)" "e \<notin> X"
  shows "remaining g (insert e X) (snd e) + 1 = remaining g X (snd e)"
proof -
  have "filter (\<lambda>x. snd x = snd e \<and> x \<notin> insert e X) (edges g) =
        filter (\<lambda>x. (snd x = snd e \<and> x \<notin> X) \<and> x \<noteq> e) (edges g)"
    by (intro filter_cong) auto
  then show ?thesis
    unfolding remaining_def
    using filter_remove_one[OF assms(1,2), of "\<lambda>x. snd x = snd e \<and> x \<notin> X"] assms(3)
    by simp
qed

lemma remaining_insert_other:
  "v \<noteq> snd e \<Longrightarrow> remaining g (insert e X) v = remaining g X v"
  unfolding remaining_def by (intro arg_cong[where f = length] filter_cong) auto

lemma remaining_zero:
  "remaining g X v = 0 \<longleftrightarrow> (\<forall>e\<in>set (edges g). snd e = v \<longrightarrow> e \<in> X)"
  unfolding remaining_def by (auto simp: filter_empty_conv)

lemma kahn_inv_delete:
  assumes d: "distinct (edges g)" and inv: "kahn_inv g m X"
    and e: "e \<in> set (edges g)" "e \<notin> X"
    and m: "map_of m (snd e) = Some 1"
  shows "kahn_inv g (AList.delete (snd e) m) (insert e X)"
proof -
  have r: "int (remaining g X (snd e)) = 1" using inv m unfolding kahn_inv_def by force
  have z: "remaining g (insert e X) (snd e) = 0"
    using remaining_insert_same[OF d e] r by simp
  show ?thesis
    unfolding kahn_inv_def delete_conv'
  proof (intro conjI allI impI ballI)
    fix v k
    assume a: "((map_of m)(snd e := None)) v = Some k"
    then have ne: "v \<noteq> snd e" and mv: "map_of m v = Some k" by (auto split: if_splits)
    from inv mv have "k = int (remaining g X v) \<and> k \<noteq> 0" unfolding kahn_inv_def by blast
    then show "k = int (remaining g (insert e X) v)" "k \<noteq> 0"
      using remaining_insert_other[OF ne] by simp_all
  next
    fix e'
    assume a: "e' \<in> set (edges g)" "e' \<notin> insert e X"
    have ne: "snd e' \<noteq> snd e"
    proof
      assume "snd e' = snd e"
      with z a show False unfolding remaining_zero by blast
    qed
    from inv a have "map_of m (snd e') \<noteq> None" unfolding kahn_inv_def by blast
    then show "((map_of m)(snd e := None)) (snd e') \<noteq> None" using ne by simp
  qed
qed

lemma kahn_inv_update:
  assumes d: "distinct (edges g)" and inv: "kahn_inv g m X"
    and e: "e \<in> set (edges g)" "e \<notin> X"
    and m: "map_of m (snd e) = Some k" and k: "k - 1 \<noteq> 0"
  shows "kahn_inv g (AList.update (snd e) (k - 1) m) (insert e X)"
proof -
  have r: "k = int (remaining g X (snd e))" using inv m unfolding kahn_inv_def by force
  have z: "k - 1 = int (remaining g (insert e X) (snd e))"
    using remaining_insert_same[OF d e] r by simp
  show ?thesis
    unfolding kahn_inv_def update_conv'
  proof (intro conjI allI impI ballI)
    fix v j
    assume a: "((map_of m)(snd e \<mapsto> k - 1)) v = Some j"
    show "j = int (remaining g (insert e X) v)"
    proof (cases "v = snd e")
      case True
      with a z show ?thesis by simp
    next
      case False
      with a have "map_of m v = Some j" by simp
      with inv have "j = int (remaining g X v)" unfolding kahn_inv_def by blast
      then show ?thesis using remaining_insert_other[OF False] by simp
    qed
    show "j \<noteq> 0"
    proof (cases "v = snd e")
      case True
      with a k show ?thesis by simp
    next
      case False
      with a have "map_of m v = Some j" by simp
      with inv show ?thesis unfolding kahn_inv_def by blast
    qed
  next
    fix e'
    assume a: "e' \<in> set (edges g)" "e' \<notin> insert e X"
    from inv a have "map_of m (snd e') \<noteq> None" unfolding kahn_inv_def by blast
    then show "((map_of m)(snd e \<mapsto> k - 1)) (snd e') \<noteq> None" by simp
  qed
qed

lemma visit_children_inv:
  assumes d: "distinct (edges g)"
  shows "kahn_inv g m X \<Longrightarrow> distinct es \<Longrightarrow> set es \<subseteq> set (edges g) \<Longrightarrow> set es \<inter> X = {} \<Longrightarrow>
    \<exists>m' new. visit_children m z (map snd es) = Inr (m', z @ new) \<and>
       kahn_inv g m' (X \<union> set es) \<and> distinct new \<and>
       (\<forall>c\<in>set new. map_of m c \<noteq> None) \<and>
       (\<forall>v. map_of m' v = None \<longleftrightarrow> (map_of m v = None \<or> v \<in> set new))"
proof (induction es arbitrary: m z X)
  case Nil
  show ?case
    by (rule exI[of _ m], rule exI[of _ "[]"]) (use Nil in simp)
next
  case (Cons e es)
  have e: "e \<in> set (edges g)" "e \<notin> X" using Cons.prems by auto
  from Cons.prems(1) e obtain k where k: "map_of m (snd e) = Some k"
    unfolding kahn_inv_def by blast
  have es: "distinct es" "set es \<subseteq> set (edges g)" "set es \<inter> insert e X = {}"
    using Cons.prems by auto
  have X: "insert e X \<union> set es = X \<union> set (e # es)" by auto
  show ?case
  proof (cases "k - 1 = 0")
    case True
    then have k1: "map_of m (snd e) = Some 1" using k by simp
    note inv1 = kahn_inv_delete[OF d Cons.prems(1) e k1]
    from Cons.IH[OF inv1 es, of "z @ [snd e]"] obtain m' new where
      v: "visit_children (AList.delete (snd e) m) (z @ [snd e]) (map snd es) =
            Inr (m', (z @ [snd e]) @ new)"
      and i: "kahn_inv g m' (insert e X \<union> set es)"
      and dn: "distinct new"
      and dom: "\<forall>c\<in>set new. map_of (AList.delete (snd e) m) c \<noteq> None"
      and non: "\<forall>v. map_of m' v = None \<longleftrightarrow>
                  (map_of (AList.delete (snd e) m) v = None \<or> v \<in> set new)"
      by blast
    have notin: "snd e \<notin> set new"
    proof
      assume "snd e \<in> set new"
      with dom have "map_of (AList.delete (snd e) m) (snd e) \<noteq> None" by blast
      then show False by (simp add: delete_conv')
    qed
    have 1: "visit_children m z (map snd (e # es)) = Inr (m', z @ (snd e # new))"
      using v k True by simp
    have 2: "distinct (snd e # new)" using dn notin by simp
    have 3: "\<forall>c\<in>set (snd e # new). map_of m c \<noteq> None"
    proof
      fix c assume "c \<in> set (snd e # new)"
      then consider "c = snd e" | "c \<in> set new" by auto
      then show "map_of m c \<noteq> None"
      proof cases
        case 1
        then show ?thesis using k by simp
      next
        case 2
        with dom have "map_of (AList.delete (snd e) m) c \<noteq> None" by blast
        then show ?thesis by (auto simp: delete_conv' split: if_splits)
      qed
    qed
    have 4: "\<forall>v. map_of m' v = None \<longleftrightarrow> (map_of m v = None \<or> v \<in> set (snd e # new))"
    proof
      fix v
      show "map_of m' v = None \<longleftrightarrow> (map_of m v = None \<or> v \<in> set (snd e # new))"
        using non[THEN spec, of v] by (cases "v = snd e") (simp_all add: delete_conv')
    qed
    show ?thesis
      using 1 i[unfolded X] 2 3 4 by blast
  next
    case False
    note inv1 = kahn_inv_update[OF d Cons.prems(1) e k False]
    from Cons.IH[OF inv1 es, of z] obtain m' new where
      v: "visit_children (AList.update (snd e) (k - 1) m) z (map snd es) = Inr (m', z @ new)"
      and i: "kahn_inv g m' (insert e X \<union> set es)"
      and dn: "distinct new"
      and dom: "\<forall>c\<in>set new. map_of (AList.update (snd e) (k - 1) m) c \<noteq> None"
      and non: "\<forall>v. map_of m' v = None \<longleftrightarrow>
                  (map_of (AList.update (snd e) (k - 1) m) v = None \<or> v \<in> set new)"
      by blast
    have 1: "visit_children m z (map snd (e # es)) = Inr (m', z @ new)"
      using v k False by simp
    have 3: "\<forall>c\<in>set new. map_of m c \<noteq> None"
    proof
      fix c assume "c \<in> set new"
      with dom have "map_of (AList.update (snd e) (k - 1) m) c \<noteq> None" by blast
      then show "map_of m c \<noteq> None" using k by (cases "c = snd e") (simp_all add: update_conv')
    qed
    have 4: "\<forall>v. map_of m' v = None \<longleftrightarrow> (map_of m v = None \<or> v \<in> set new)"
    proof
      fix v
      show "map_of m' v = None \<longleftrightarrow> (map_of m v = None \<or> v \<in> set new)"
        using non[THEN spec, of v] k by (cases "v = snd e") (simp_all add: update_conv')
    qed
    show ?thesis
      using 1 i[unfolded X] dn 3 4 by blast
  qed
qed

lemma visit_children_append:
  "visit_children m z (xs @ ys) =
     (case visit_children m z xs of
        Inl e \<Rightarrow> Inl e
      | Inr (m', z') \<Rightarrow> visit_children m' z' ys)"
proof (induction xs arbitrary: m z)
  case Nil
  show ?case by simp
next
  case (Cons c cs)
  show ?case
  proof (cases "map_of m c")
    case None
    then show ?thesis by simp
  next
    case (Some k)
    then show ?thesis using Cons.IH by simp
  qed
qed

lemma visit_generation_flat:
  "set ns \<subseteq> set (nodes g) \<Longrightarrow>
   visit_generation g m z ns = visit_children m z (concat (map (graph_successors g) ns))"
proof (induction ns arbitrary: m z)
  case Nil
  show ?case by simp
next
  case (Cons n ns)
  then have n: "n \<in> set (nodes g)" and ns: "set ns \<subseteq> set (nodes g)" by auto
  show ?case
  proof (cases "visit_children m z (graph_successors g n)")
    case (Inl e)
    then show ?thesis using n by (simp add: visit_children_append)
  next
    case (Inr r)
    obtain m1 z1 where "r = (m1, z1)" by (cases r)
    then show ?thesis using n Inr Cons.IH[OF ns] by (simp add: visit_children_append)
  qed
qed

text \<open>The edges that leave the nodes of a generation, in the order of the visit.\<close>

definition out_edges :: "digraph \<Rightarrow> string list \<Rightarrow> (string \<times> string) list" where
  "out_edges g ns = concat (map (\<lambda>n. filter (\<lambda>e. fst e = n) (edges g)) ns)"

lemma map_snd_out_edges:
  "map snd (out_edges g ns) = concat (map (graph_successors g) ns)"
  by (induction ns) (simp_all add: out_edges_def graph_successors_def)

lemma set_out_edges: "set (out_edges g ns) = {e \<in> set (edges g). fst e \<in> set ns}"
  unfolding out_edges_def by auto

lemma distinct_out_edges:
  "distinct (edges g) \<Longrightarrow> distinct ns \<Longrightarrow> distinct (out_edges g ns)"
proof (induction ns)
  case Nil
  show ?case by (simp add: out_edges_def)
next
  case (Cons n ns)
  have o: "out_edges g (n # ns) = filter (\<lambda>e. fst e = n) (edges g) @ out_edges g ns"
    by (simp add: out_edges_def)
  have "set (filter (\<lambda>e. fst e = n) (edges g)) \<inter> set (out_edges g ns) = {}"
    unfolding set_out_edges using Cons.prems(2) by auto
  then show ?case
    unfolding o using Cons by simp
qed

text \<open>
  The state at the head of the \<open>while\<close> loop: \<open>P\<close> holds the nodes of the generations
  already yielded, the visited edges are those that leave \<open>P\<close>, and every node is in
  \<open>P\<close>, in the current generation or in \<open>indegree_map\<close>.
\<close>

definition XP :: "digraph \<Rightarrow> string set \<Rightarrow> (string \<times> string) set" where
  "XP g P = {e \<in> set (edges g). fst e \<in> P}"

definition loop_pre :: "digraph \<Rightarrow> string set \<Rightarrow> (string \<times> int) list \<Rightarrow> string list \<Rightarrow> bool" where
  "loop_pre g P m zero =
     (kahn_inv g m (XP g P) \<and> distinct zero \<and> set zero \<inter> P = {} \<and>
      (\<forall>v\<in>set zero \<union> P. map_of m v = None) \<and>
      dom (map_of m) \<subseteq> set (nodes g) \<and> set zero \<subseteq> set (nodes g) \<and>
      set (nodes g) \<subseteq> P \<union> set zero \<union> dom (map_of m))"

lemma loop_step:
  assumes d: "distinct (edges g)" and pre: "loop_pre g P m zero"
  shows "\<exists>m' next. visit_generation g m [] zero = Inr (m', next) \<and>
           loop_pre g (P \<union> set zero) m' next"
proof -
  from pre have inv: "kahn_inv g m (XP g P)" and dz: "distinct zero"
    and zP: "set zero \<inter> P = {}" and non: "\<forall>v\<in>set zero \<union> P. map_of m v = None"
    and dm: "dom (map_of m) \<subseteq> set (nodes g)" and zn: "set zero \<subseteq> set (nodes g)"
    and cov: "set (nodes g) \<subseteq> P \<union> set zero \<union> dom (map_of m)"
    unfolding loop_pre_def by blast+
  have 1: "distinct (out_edges g zero)" using d dz by (rule distinct_out_edges)
  have 2: "set (out_edges g zero) \<subseteq> set (edges g)" unfolding set_out_edges by blast
  have 3: "set (out_edges g zero) \<inter> XP g P = {}"
    unfolding set_out_edges XP_def using zP by blast
  from visit_children_inv[OF d inv 1 2 3, of "[]"] obtain m' new where
    v: "visit_children m [] (map snd (out_edges g zero)) = Inr (m', [] @ new)"
    and i: "kahn_inv g m' (XP g P \<union> set (out_edges g zero))"
    and dn: "distinct new"
    and sub: "\<forall>c\<in>set new. map_of m c \<noteq> None"
    and nn: "\<forall>v. map_of m' v = None \<longleftrightarrow> (map_of m v = None \<or> v \<in> set new)"
    by blast
  have X: "XP g P \<union> set (out_edges g zero) = XP g (P \<union> set zero)"
    unfolding set_out_edges XP_def by blast
  have vg: "visit_generation g m [] zero = Inr (m', new)"
    unfolding visit_generation_flat[OF zn] map_snd_out_edges[symmetric] using v by simp
  have a: "set new \<inter> (P \<union> set zero) = {}"
  proof -
    have "x \<notin> P \<union> set zero" if "x \<in> set new" for x
    proof
      assume "x \<in> P \<union> set zero"
      then have "map_of m x = None" using non by auto
      moreover have "map_of m x \<noteq> None" using sub that by auto
      ultimately show False by simp
    qed
    then show ?thesis by auto
  qed
  have b: "\<forall>v\<in>set new \<union> (P \<union> set zero). map_of m' v = None"
  proof
    fix v assume "v \<in> set new \<union> (P \<union> set zero)"
    then have "map_of m v = None \<or> v \<in> set new" using non by auto
    then show "map_of m' v = None" using nn[THEN spec, of v] by simp
  qed
  have c: "dom (map_of m') \<subseteq> set (nodes g)"
  proof
    fix x assume "x \<in> dom (map_of m')"
    then have "map_of m' x \<noteq> None" by auto
    then have "map_of m x \<noteq> None" using nn[THEN spec, of x] by auto
    then have "x \<in> dom (map_of m)" by auto
    then show "x \<in> set (nodes g)" using dm by auto
  qed
  have e: "set new \<subseteq> set (nodes g)"
  proof
    fix x assume "x \<in> set new"
    then have "map_of m x \<noteq> None" using sub by auto
    then have "x \<in> dom (map_of m)" by auto
    then show "x \<in> set (nodes g)" using dm by auto
  qed
  have f: "set (nodes g) \<subseteq> (P \<union> set zero) \<union> set new \<union> dom (map_of m')"
  proof
    fix x assume "x \<in> set (nodes g)"
    then have "x \<in> P \<union> set zero \<or> map_of m x \<noteq> None" using cov by auto
    then consider "x \<in> P \<union> set zero" | "x \<in> set new" | "map_of m x \<noteq> None" "x \<notin> set new"
      by auto
    then show "x \<in> (P \<union> set zero) \<union> set new \<union> dom (map_of m')"
    proof cases
      case 1 then show ?thesis by simp
    next
      case 2 then show ?thesis by simp
    next
      case 3
      then have "map_of m' x \<noteq> None" using nn[THEN spec, of x] by simp
      then have "x \<in> dom (map_of m')" by auto
      then show ?thesis by simp
    qed
  qed
  have a': "set new \<inter> (P \<union> set zero) = {}" using a .
  have "loop_pre g (P \<union> set zero) m' new"
    unfolding loop_pre_def
    by (intro conjI) (use i[unfolded X] dn a b c e f in \<open>simp_all add: Un_commute Un_assoc\<close>)
  with vg show ?thesis by blast
qed

text \<open>
  A list continues a topological order after the nodes \<open>P\<close>: every node comes after all
  its predecessors and is listed once.
\<close>

fun topo_ok :: "(string \<times> string) set \<Rightarrow> string set \<Rightarrow> string list \<Rightarrow> bool" where
  "topo_ok E P [] = True"
| "topo_ok E P (n # ns) = ((\<forall>u. (u, n) \<in> E \<longrightarrow> u \<in> P) \<and> n \<notin> P \<and> topo_ok E (insert n P) ns)"

lemma topo_ok_append:
  "topo_ok E P (xs @ ys) \<longleftrightarrow> topo_ok E P xs \<and> topo_ok E (P \<union> set xs) ys"
proof (induction xs arbitrary: P)
  case Nil
  show ?case by simp
next
  case (Cons x xs)
  have "insert x P \<union> set xs = P \<union> set (x # xs)" by auto
  then show ?case using Cons.IH[of "insert x P"] by auto
qed

lemma topo_ok_generation:
  "distinct zs \<Longrightarrow> set zs \<inter> P = {} \<Longrightarrow> (\<forall>n\<in>set zs. \<forall>u. (u, n) \<in> E \<longrightarrow> u \<in> Q) \<Longrightarrow>
   Q \<subseteq> P \<Longrightarrow> topo_ok E P zs"
proof (induction zs arbitrary: P)
  case Nil
  show ?case by simp
next
  case (Cons z zs)
  have 1: "distinct zs" "set zs \<inter> insert z P = {}" "\<forall>n\<in>set zs. \<forall>u. (u, n) \<in> E \<longrightarrow> u \<in> Q"
    "Q \<subseteq> insert z P"
    using Cons.prems by auto
  have "topo_ok E (insert z P) zs" by (rule Cons.IH[OF 1])
  moreover have "\<forall>u. (u, z) \<in> E \<longrightarrow> u \<in> P" using Cons.prems by auto
  moreover have "z \<notin> P" using Cons.prems by auto
  ultimately show ?case by simp
qed

lemma zero_preds_processed:
  assumes "loop_pre g P m zero" "n \<in> set zero" "(u, n) \<in> set (edges g)"
  shows "u \<in> P"
proof (rule ccontr)
  assume "u \<notin> P"
  then have "(u, n) \<notin> XP g P" unfolding XP_def by simp
  with assms(1,3) have "map_of m (snd (u, n)) \<noteq> None"
    unfolding loop_pre_def kahn_inv_def by blast
  moreover have "map_of m n = None" using assms(1,2) unfolding loop_pre_def by blast
  ultimately show False by simp
qed

lemma stuck_has_cycle:
  assumes w: "wf_digraph g" and pre: "loop_pre g P m []" and m: "m \<noteq> []"
  shows "\<not> acyclic (set (edges g))"
proof
  assume "acyclic (set (edges g))"
  then have wf: "wf (set (edges g))" by (intro finite_acyclic_wf) auto
  obtain k v ms where "m = (k, v) # ms" using m by (cases m) auto
  then have "k \<in> dom (map_of m)" by simp
  from wfE_min[OF wf this] obtain z where z: "z \<in> dom (map_of m)"
    and min: "\<And>y. (y, z) \<in> set (edges g) \<Longrightarrow> y \<notin> dom (map_of m)"
    by blast
  from z obtain j where j: "map_of m z = Some j" by blast
  with pre have "j = int (remaining g (XP g P) z)" "j \<noteq> 0"
    unfolding loop_pre_def kahn_inv_def by blast+
  then have "remaining g (XP g P) z \<noteq> 0" by simp
  then obtain e where e: "e \<in> set (edges g)" "snd e = z" "e \<notin> XP g P"
    unfolding remaining_zero by blast
  then have u: "fst e \<notin> P" unfolding XP_def by simp
  have "fst e \<in> set (nodes g)" using w e(1) unfolding wf_digraph_def by blast
  then have "fst e \<in> dom (map_of m)" using pre u unfolding loop_pre_def by auto
  moreover have "(fst e, z) \<in> set (edges g)" using e by (cases e) auto
  ultimately show False using min by blast
qed

lemma loop_correct:
  "wf_digraph g \<Longrightarrow> loop_pre g P m zero \<Longrightarrow>
    (case topological_generations_loop g m zero of
       Inr gens \<Rightarrow> topo_ok (set (edges g)) P (concat gens) \<and>
                   set (nodes g) \<subseteq> P \<union> set (concat gens) \<and>
                   set (concat gens) \<subseteq> set (nodes g)
     | Inl e \<Rightarrow> e = NetworkXUnfeasible \<and> \<not> acyclic (set (edges g)))"
proof (induction g m zero arbitrary: P rule: topological_generations_loop.induct)
  case (1 g m zero)
  have d: "distinct (edges g)" using "1.prems"(1) unfolding wf_digraph_def by blast
  show ?case
  proof (cases "zero = []")
    case True
    show ?thesis
    proof (cases "m = []")
      case m: True
      have "set (nodes g) \<subseteq> P" using "1.prems"(2) True m unfolding loop_pre_def by simp
      then show ?thesis
        using True m by (subst topological_generations_loop.simps) simp
    next
      case m: False
      have "\<not> acyclic (set (edges g))"
        using stuck_has_cycle[OF "1.prems"(1) _ m] "1.prems"(2) True by simp
      then show ?thesis
        using True m by (subst topological_generations_loop.simps) simp
    qed
  next
    case False
    from loop_step[OF d "1.prems"(2)] obtain m' nxt where
      vg: "visit_generation g m [] zero = Inr (m', nxt)"
      and pre': "loop_pre g (P \<union> set zero) m' nxt"
      by blast
    note IH = "1.IH"[OF False vg refl "1.prems"(1) pre']
    have unf: "topological_generations_loop g m zero =
                 (case topological_generations_loop g m' nxt of
                    Inl e \<Rightarrow> Inl e | Inr rest \<Rightarrow> Inr (zero # rest))"
      using False vg by (subst topological_generations_loop.simps) simp
    show ?thesis
    proof (cases "topological_generations_loop g m' nxt")
      case (Inl e)
      then show ?thesis using IH unf by simp
    next
      case (Inr rest)
      with IH have r: "topo_ok (set (edges g)) (P \<union> set zero) (concat rest)"
        and c: "set (nodes g) \<subseteq> (P \<union> set zero) \<union> set (concat rest)"
        and s: "set (concat rest) \<subseteq> set (nodes g)"
        by simp_all
      have zn: "set zero \<subseteq> set (nodes g)"
        using "1.prems"(2) unfolding loop_pre_def by blast
      have dz: "distinct zero" and zP: "set zero \<inter> P = {}"
        using "1.prems"(2) unfolding loop_pre_def by blast+
      have z: "topo_ok (set (edges g)) P zero"
      proof (rule topo_ok_generation[OF dz zP _ subset_refl])
        show "\<forall>n\<in>set zero. \<forall>u. (u, n) \<in> set (edges g) \<longrightarrow> u \<in> P"
          using zero_preds_processed[OF "1.prems"(2)] by blast
      qed
      have "topo_ok (set (edges g)) P (zero @ concat rest)"
        unfolding topo_ok_append using z r by simp
      moreover have "set (nodes g) \<subseteq> P \<union> set (zero @ concat rest)"
        using c by auto
      moreover have "set (zero @ concat rest) \<subseteq> set (nodes g)"
        using s zn by simp
      ultimately show ?thesis using unf Inr by simp
    qed
  qed
qed

lemma initial_indegree_map:
  "filter (\<lambda>(v, d). d > 0) (map (\<lambda>v. (v, in_degree g v)) (nodes g)) =
   map (\<lambda>v. (v, in_degree g v)) (filter (\<lambda>v. in_degree g v > 0) (nodes g))"
  by (induction "nodes g" arbitrary: g) (simp_all add: filter_map comp_def)

lemma initial_zero_indegree:
  "map fst (filter (\<lambda>(v, d). d = 0) (map (\<lambda>v. (v, in_degree g v)) (nodes g))) =
   filter (\<lambda>v. in_degree g v = 0) (nodes g)"
  by (simp add: filter_map comp_def)

lemma in_degree_remaining: "in_degree g v = int (remaining g {} v)"
  by (simp add: in_degree_def graph_predecessors_def remaining_def)

lemma map_of_initial:
  "map_of (map (\<lambda>v. (v, in_degree g v)) (filter (\<lambda>v. in_degree g v > 0) (nodes g))) v =
     (if v \<in> set (nodes g) \<and> in_degree g v > 0 then Some (in_degree g v) else None)"
  by (simp add: map_of_map_restrict restrict_map_def)

lemma XP_empty: "XP g {} = {}"
  by (simp add: XP_def)

lemma initial_loop_pre:
  assumes w: "wf_digraph g"
  shows "loop_pre g {}
           (map (\<lambda>v. (v, in_degree g v)) (filter (\<lambda>v. in_degree g v > 0) (nodes g)))
           (filter (\<lambda>v. in_degree g v = 0) (nodes g))"
proof -
  let ?m = "map (\<lambda>v. (v, in_degree g v)) (filter (\<lambda>v. in_degree g v > 0) (nodes g))"
  have dn: "distinct (nodes g)" and en: "\<forall>e\<in>set (edges g). snd e \<in> set (nodes g)"
    using w unfolding wf_digraph_def by auto
  have k: "kahn_inv g ?m {}"
    unfolding kahn_inv_def
  proof (intro conjI allI impI ballI)
    fix v d assume "map_of ?m v = Some d"
    then have "d = in_degree g v" "d > 0" unfolding map_of_initial by (auto split: if_splits)
    then show "d = int (remaining g {} v)" "d \<noteq> 0" by (simp_all add: in_degree_remaining)
  next
    fix e assume e: "e \<in> set (edges g)" "e \<notin> {}"
    then have "remaining g {} (snd e) \<noteq> 0" unfolding remaining_zero by auto
    then have "in_degree g (snd e) > 0" by (simp add: in_degree_remaining)
    moreover have "snd e \<in> set (nodes g)" using en e by auto
    ultimately show "map_of ?m (snd e) \<noteq> None" unfolding map_of_initial by simp
  qed
  have d: "dom (map_of ?m) \<subseteq> set (nodes g)"
  proof
    fix x assume "x \<in> dom (map_of ?m)"
    then have "map_of ?m x \<noteq> None" by auto
    then show "x \<in> set (nodes g)" unfolding map_of_initial by (auto split: if_splits)
  qed
  have c: "set (nodes g) \<subseteq> {} \<union> set (filter (\<lambda>v. in_degree g v = 0) (nodes g)) \<union> dom (map_of ?m)"
  proof
    fix x assume x: "x \<in> set (nodes g)"
    have "in_degree g x = 0 \<or> in_degree g x > 0" by (auto simp: in_degree_def)
    then show "x \<in> {} \<union> set (filter (\<lambda>v. in_degree g v = 0) (nodes g)) \<union> dom (map_of ?m)"
    proof
      assume "in_degree g x = 0" then show ?thesis using x by simp
    next
      assume "in_degree g x > 0"
      then have "map_of ?m x \<noteq> None" unfolding map_of_initial using x by simp
      then have "x \<in> dom (map_of ?m)" by auto
      then show ?thesis by simp
    qed
  qed
  have z: "\<forall>v\<in>set (filter (\<lambda>v. in_degree g v = 0) (nodes g)) \<union> {}. map_of ?m v = None"
    unfolding map_of_initial by auto
  show ?thesis
    unfolding loop_pre_def XP_empty
    by (intro conjI) (use k dn d c z in simp_all)
qed

lemma topo_ok_distinct: "topo_ok E P ns \<Longrightarrow> distinct ns \<and> set ns \<inter> P = {}"
proof (induction ns arbitrary: P)
  case Nil
  show ?case by simp
next
  case (Cons n ns)
  then have "topo_ok E (insert n P) ns" "n \<notin> P" by simp_all
  from Cons.IH[OF this(1)] this(2) show ?case by auto
qed

lemma topological_sort_correct:
  assumes w: "wf_digraph g"
  shows "case topological_sort g of
           Inr order \<Rightarrow> topo_ok (set (edges g)) {} order \<and> set order = set (nodes g)
         | Inl e \<Rightarrow> e = NetworkXUnfeasible \<and> \<not> acyclic (set (edges g))"
proof -
  let ?m = "map (\<lambda>v. (v, in_degree g v)) (filter (\<lambda>v. in_degree g v > 0) (nodes g))"
  let ?z = "filter (\<lambda>v. in_degree g v = 0) (nodes g)"
  have ts: "topological_sort g =
      (case topological_generations_loop g ?m ?z of
         Inl e \<Rightarrow> Inl e | Inr generations \<Rightarrow> Inr (concat generations))"
    unfolding topological_sort_def Let_def initial_indegree_map initial_zero_indegree
    by (rule refl)
  note lc = loop_correct[OF w initial_loop_pre[OF w]]
  show ?thesis
  proof (cases "topological_generations_loop g ?m ?z")
    case (Inl e)
    then show ?thesis using lc unfolding ts by simp
  next
    case (Inr gens)
    then show ?thesis using lc unfolding ts by auto
  qed
qed

lemma topological_sort_acyclic:
  assumes w: "wf_digraph g" and a: "acyclic (set (edges g))"
  shows "\<exists>order. topological_sort g = Inr order \<and> topo_ok (set (edges g)) {} order \<and>
           set order = set (nodes g)"
proof (cases "topological_sort g")
  case (Inl e)
  then show ?thesis using topological_sort_correct[OF w] a by simp
next
  case (Inr order)
  then show ?thesis using topological_sort_correct[OF w] by simp
qed

subsection \<open>Graphs built from activities are well formed\<close>

lemma wf_empty_graph: "wf_digraph empty_graph"
  by (simp add: wf_digraph_def empty_graph_def)

lemma wf_add_node: "wf_digraph g \<Longrightarrow> wf_digraph (add_node n g)"
  by (auto simp: wf_digraph_def add_node_def)

lemma add_node_mem: "n \<in> set (nodes (add_node n g))"
  by (simp add: add_node_def)

lemma add_node_mono: "set (nodes g) \<subseteq> set (nodes (add_node n g))"
  by (auto simp: add_node_def)

lemma wf_add_edge:
  assumes "wf_digraph g"
  shows "wf_digraph (add_edge u v g)"
proof -
  let ?g1 = "add_node v (add_node u g)"
  have w1: "wf_digraph ?g1" using assms by (intro wf_add_node)
  have u: "u \<in> set (nodes ?g1)" using add_node_mem[of u g] add_node_mono[of "add_node u g" v] by auto
  have v: "v \<in> set (nodes ?g1)" by (rule add_node_mem)
  show ?thesis
  proof (cases "(u, v) \<in> set (edges ?g1)")
    case True
    then show ?thesis using w1 by (simp add: add_edge_def Let_def)
  next
    case False
    then have "add_edge u v g = ?g1\<lparr>edges := edges ?g1 @ [(u, v)]\<rparr>"
      by (simp add: add_edge_def Let_def)
    then show ?thesis using w1 u v False by (auto simp: wf_digraph_def)
  qed
qed

lemma wf_add_activity_edges:
  assumes "wf_digraph g"
  shows "wf_digraph (add_activity_edges a g)"
proof -
  have "wf_digraph h \<Longrightarrow>
        wf_digraph (fold (\<lambda>p g'. if strip p \<noteq> [] then add_edge p k g' else g') ps h)" for ps h k
    by (induction ps arbitrary: h) (simp_all add: wf_add_edge)
  then show ?thesis
    unfolding add_activity_edges_def using wf_add_node[OF assms] by blast
qed

lemma wf_build_graph: "wf_digraph (build_graph adict)"
proof -
  have "wf_digraph h \<Longrightarrow> wf_digraph (fold (\<lambda>(k, a). add_activity_edges a) xs h)" for xs h
    by (induction xs arbitrary: h) (auto simp: wf_add_activity_edges)
  then show ?thesis unfolding build_graph_def using wf_empty_graph by blast
qed

section \<open>The critical path method as recurrences\<close>

text \<open>\<open>d.get(k, dflt)\<close> on a dictionary kept as an association list.\<close>

definition dict_get :: "(string \<times> real) list \<Rightarrow> string \<Rightarrow> real \<Rightarrow> real" where
  "dict_get m k dflt = (case map_of m k of None \<Rightarrow> dflt | Some x \<Rightarrow> x)"

text \<open>
  The recurrences as the specification words them: the earliest start of a node is the
  largest earliest finish of its predecessors (0 when it has none), its latest finish
  is the smallest latest start of its successors (the project finish when it has none).
  A predecessor without an earliest finish counts as 0, a successor without a latest
  start as the project finish.
\<close>

definition spec_earliest_start :: "digraph \<Rightarrow> (string \<times> real) list \<Rightarrow> string \<Rightarrow> real" where
  "spec_earliest_start g earliest_finish n =
     (if graph_predecessors g n = [] then 0
      else Max ((\<lambda>p. dict_get earliest_finish p 0) ` set (graph_predecessors g n)))"

definition spec_latest_finish ::
  "digraph \<Rightarrow> real \<Rightarrow> (string \<times> real) list \<Rightarrow> string \<Rightarrow> real" where
  "spec_latest_finish g project_finish latest_start n =
     (if graph_successors g n = [] then project_finish
      else Min ((\<lambda>s. dict_get latest_start s project_finish) ` set (graph_successors g n)))"

lemma mem_graph_predecessors: "p \<in> set (graph_predecessors g n) \<longleftrightarrow> (p, n) \<in> set (edges g)"
  unfolding graph_predecessors_def by force

lemma mem_graph_successors: "s \<in> set (graph_successors g n) \<longleftrightarrow> (n, s) \<in> set (edges g)"
  unfolding graph_successors_def by force

lemma spec_earliest_start_cong:
  assumes "\<And>p. (p, n) \<in> set (edges g) \<Longrightarrow> map_of ef p = map_of ef' p"
  shows "spec_earliest_start g ef n = spec_earliest_start g ef' n"
proof -
  have "(\<lambda>p. dict_get ef p 0) ` set (graph_predecessors g n) =
        (\<lambda>p. dict_get ef' p 0) ` set (graph_predecessors g n)"
    by (rule image_cong[OF refl]) (simp add: dict_get_def assms mem_graph_predecessors)
  then show ?thesis unfolding spec_earliest_start_def by simp
qed

lemma spec_latest_finish_cong:
  assumes "\<And>s. (n, s) \<in> set (edges g) \<Longrightarrow> map_of ls s = map_of ls' s"
  shows "spec_latest_finish g pf ls n = spec_latest_finish g pf ls' n"
proof -
  have "(\<lambda>s. dict_get ls s pf) ` set (graph_successors g n) =
        (\<lambda>s. dict_get ls' s pf) ` set (graph_successors g n)"
    by (rule image_cong[OF refl]) (simp add: dict_get_def assms mem_graph_successors)
  then show ?thesis unfolding spec_latest_finish_def by simp
qed

lemma forward_step_other:
  assumes "x \<noteq> node"
  shows "map_of (fst (forward_step g durs node st)) x = map_of (fst st) x"
    and "map_of (snd (forward_step g durs node st)) x = map_of (snd st) x"
proof -
  obtain es ef where st: "st = (es, ef)" by (cases st)
  show "map_of (fst (forward_step g durs node st)) x = map_of (fst st) x"
    unfolding st forward_step_def using assms
    by (cases "map_of durs node") (simp_all add: Let_def update_conv')
  show "map_of (snd (forward_step g durs node st)) x = map_of (snd st) x"
    unfolding st forward_step_def using assms
    by (cases "map_of durs node") (simp_all add: Let_def update_conv')
qed

lemma forward_step_self:
  assumes "map_of durs n = Some d"
  shows "map_of (fst (forward_step g durs n st)) n = Some (spec_earliest_start g (snd st) n)"
    and "map_of (snd (forward_step g durs n st)) n = Some (spec_earliest_start g (snd st) n + d)"
proof -
  obtain es ef where st: "st = (es, ef)" by (cases st)
  have e: "(if map (\<lambda>p. case map_of ef p of None \<Rightarrow> 0 | Some x \<Rightarrow> x) (graph_predecessors g n) \<noteq> []
            then Max (set (map (\<lambda>p. case map_of ef p of None \<Rightarrow> 0 | Some x \<Rightarrow> x)
                             (graph_predecessors g n)))
            else 0) = spec_earliest_start g ef n"
    unfolding spec_earliest_start_def dict_get_def by simp
  show "map_of (fst (forward_step g durs n st)) n = Some (spec_earliest_start g (snd st) n)"
    unfolding st forward_step_def prod.case assms option.case Let_def e
    by (simp add: update_conv')
  show "map_of (snd (forward_step g durs n st)) n = Some (spec_earliest_start g (snd st) n + d)"
    unfolding st forward_step_def prod.case assms option.case Let_def e
    by (simp add: update_conv')
qed

lemma forward_fold_other:
  "x \<notin> set ns \<Longrightarrow>
   map_of (fst (fold (forward_step g durs) ns st)) x = map_of (fst st) x \<and>
   map_of (snd (fold (forward_step g durs) ns st)) x = map_of (snd st) x"
proof (induction ns arbitrary: st)
  case Nil
  show ?case by simp
next
  case (Cons n ns)
  then have "x \<noteq> n" "x \<notin> set ns" by auto
  from Cons.IH[OF this(2), of "forward_step g durs n st"] forward_step_other[OF this(1)]
  show ?case by simp
qed

lemma forward_recurrence:
  "topo_ok (set (edges g)) P ns \<Longrightarrow> n \<in> set ns \<Longrightarrow> map_of durs n = Some d \<Longrightarrow>
   map_of (fst (fold (forward_step g durs) ns st)) n =
     Some (spec_earliest_start g (snd (fold (forward_step g durs) ns st)) n) \<and>
   map_of (snd (fold (forward_step g durs) ns st)) n =
     Some (spec_earliest_start g (snd (fold (forward_step g durs) ns st)) n + d)"
proof (induction ns arbitrary: P st)
  case Nil
  then show ?case by simp
next
  case (Cons x ns)
  have t: "topo_ok (set (edges g)) (insert x P) ns"
    and preds: "\<And>u. (u, x) \<in> set (edges g) \<Longrightarrow> u \<in> P" and xP: "x \<notin> P"
    using Cons.prems(1) by simp_all
  from topo_ok_distinct[OF t] have xns: "x \<notin> set ns" and nsP: "set ns \<inter> P = {}" by auto
  let ?st1 = "forward_step g durs x st"
  let ?fin = "fold (forward_step g durs) ns ?st1"
  have f: "fold (forward_step g durs) (x # ns) st = ?fin" by simp
  show ?case
  proof (cases "n \<in> set ns")
    case True
    from Cons.IH[OF t True Cons.prems(3), of ?st1] show ?thesis unfolding f .
  next
    case False
    then have nx: "n = x" using Cons.prems(2) by simp
    have same: "spec_earliest_start g (snd ?fin) n = spec_earliest_start g (snd st) n"
    proof (rule spec_earliest_start_cong)
      fix p assume "(p, n) \<in> set (edges g)"
      then have pP: "p \<in> P" using preds nx by simp
      then have "p \<noteq> x" "p \<notin> set ns" using xP nsP by auto
      then show "map_of (snd ?fin) p = map_of (snd st) p"
        using forward_fold_other[of p ns g durs ?st1] forward_step_other(2)[of p x g durs st]
        by simp
    qed
    have "map_of (fst ?fin) n = map_of (fst ?st1) n" "map_of (snd ?fin) n = map_of (snd ?st1) n"
      using forward_fold_other[of n ns g durs ?st1] False by simp_all
    then show ?thesis
      unfolding f same
      using forward_step_self[OF Cons.prems(3), of g st] nx by simp
  qed
qed

lemma backward_step_other:
  assumes "x \<noteq> node"
  shows "map_of (fst (backward_step g durs pf node st)) x = map_of (fst st) x"
    and "map_of (snd (backward_step g durs pf node st)) x = map_of (snd st) x"
proof -
  obtain ls lf where st: "st = (ls, lf)" by (cases st)
  show "map_of (fst (backward_step g durs pf node st)) x = map_of (fst st) x"
    unfolding st backward_step_def using assms
    by (cases "map_of durs node") (simp_all add: Let_def update_conv')
  show "map_of (snd (backward_step g durs pf node st)) x = map_of (snd st) x"
    unfolding st backward_step_def using assms
    by (cases "map_of durs node") (simp_all add: Let_def update_conv')
qed

lemma backward_step_self:
  assumes "map_of durs n = Some d"
  shows "map_of (snd (backward_step g durs pf n st)) n =
           Some (spec_latest_finish g pf (fst st) n)"
    and "map_of (fst (backward_step g durs pf n st)) n =
           Some (spec_latest_finish g pf (fst st) n - d)"
proof -
  obtain ls lf where st: "st = (ls, lf)" by (cases st)
  have e: "(if map (\<lambda>s. case map_of ls s of None \<Rightarrow> pf | Some x \<Rightarrow> x) (graph_successors g n) \<noteq> []
            then Min (set (map (\<lambda>s. case map_of ls s of None \<Rightarrow> pf | Some x \<Rightarrow> x)
                             (graph_successors g n)))
            else pf) = spec_latest_finish g pf ls n"
    unfolding spec_latest_finish_def dict_get_def by simp
  show "map_of (snd (backward_step g durs pf n st)) n =
           Some (spec_latest_finish g pf (fst st) n)"
    unfolding st backward_step_def prod.case assms option.case Let_def e
    by (simp add: update_conv')
  show "map_of (fst (backward_step g durs pf n st)) n =
           Some (spec_latest_finish g pf (fst st) n - d)"
    unfolding st backward_step_def prod.case assms option.case Let_def e
    by (simp add: update_conv')
qed

lemma backward_recurrence:
  "topo_ok (set (edges g)) P ns \<Longrightarrow> n \<in> set ns \<Longrightarrow> map_of durs n = Some d \<Longrightarrow>
   map_of (snd (foldr (backward_step g durs pf) ns st)) n =
     Some (spec_latest_finish g pf (fst (foldr (backward_step g durs pf) ns st)) n) \<and>
   map_of (fst (foldr (backward_step g durs pf) ns st)) n =
     Some (spec_latest_finish g pf (fst (foldr (backward_step g durs pf) ns st)) n - d)"
proof (induction ns arbitrary: P)
  case Nil
  then show ?case by simp
next
  case (Cons x ns)
  have t: "topo_ok (set (edges g)) (insert x P) ns"
    and preds: "\<And>u. (u, x) \<in> set (edges g) \<Longrightarrow> u \<in> P" and xP: "x \<notin> P"
    using Cons.prems(1) by simp_all
  from topo_ok_distinct[OF t] have xns: "x \<notin> set ns" and nsP: "set ns \<inter> P = {}" by auto
  let ?mid = "foldr (backward_step g durs pf) ns st"
  let ?fin = "backward_step g durs pf x ?mid"
  have f: "foldr (backward_step g durs pf) (x # ns) st = ?fin" by simp
  show ?case
  proof (cases "n \<in> set ns")
    case True
    then have nx: "n \<noteq> x" using xns by auto
    have same: "spec_latest_finish g pf (fst ?fin) n = spec_latest_finish g pf (fst ?mid) n"
    proof (rule spec_latest_finish_cong)
      fix s assume e: "(n, s) \<in> set (edges g)"
      have "s \<noteq> x"
      proof
        assume "s = x"
        with e preds have "n \<in> P" by simp
        with True nsP show False by auto
      qed
      then show "map_of (fst ?fin) s = map_of (fst ?mid) s"
        by (rule backward_step_other(1))
    qed
    from Cons.IH[OF t True Cons.prems(3)] backward_step_other[OF nx, of g durs pf ?mid]
    show ?thesis unfolding f same by simp
  next
    case False
    then have nx: "n = x" using Cons.prems(2) by simp
    have same: "spec_latest_finish g pf (fst ?fin) n = spec_latest_finish g pf (fst ?mid) n"
    proof (rule spec_latest_finish_cong)
      fix s assume e: "(n, s) \<in> set (edges g)"
      have "s \<noteq> x"
      proof
        assume "s = x"
        with e preds nx have "x \<in> P" by simp
        with xP show False by simp
      qed
      then show "map_of (fst ?fin) s = map_of (fst ?mid) s"
        by (rule backward_step_other(1))
    qed
    show ?thesis
      unfolding f same
      using backward_step_self[OF Cons.prems(3), of g pf ?mid] nx by simp
  qed
qed

lemma wf_chain_graph: "wf_digraph chain_graph"
  using wf_build_graph[of "activities_dict chain_activities"] unfolding build_chain .

lemma acyclic_chain_graph: "acyclic (set (edges chain_graph))"
proof -
  have "acyclic ({} :: (string \<times> string) set)" by (simp add: acyclic_def)
  then show ?thesis by (simp add: chain_graph_def acyclic_insert)
qed

lemma critical_set:
  "set (filter (is_critical durs es ls pf) order) =
   {n \<in> set order. map_of durs n \<noteq> None \<and> \<bar>dict_get es n 0 - dict_get ls n pf\<bar> < 1 / 100}"
  by (simp add: is_critical_def dict_get_def Let_def)

lemma critical_path_recurrences:
  assumes w: "wf_digraph g" and a: "acyclic (set (edges g))"
  shows "\<exists>order es ef ls lf.
           topological_sort g = Inr order \<and> set order = set (nodes g) \<and> distinct order \<and>
           forward_pass g durs order = (es, ef) \<and>
           backward_pass g durs (max_values ef) order = (ls, lf) \<and>
           compute_critical_path_length g durs = Inr (max_values ef) \<and>
           compute_critical_path_activities g durs =
             Inr {n \<in> set (nodes g). map_of durs n \<noteq> None \<and>
                    \<bar>dict_get es n 0 - dict_get ls n (max_values ef)\<bar> < 1 / 100} \<and>
           (\<forall>n d. n \<in> set (nodes g) \<and> map_of durs n = Some d \<longrightarrow>
              map_of es n = Some (spec_earliest_start g ef n) \<and>
              map_of ef n = Some (spec_earliest_start g ef n + d) \<and>
              map_of lf n = Some (spec_latest_finish g (max_values ef) ls n) \<and>
              map_of ls n = Some (spec_latest_finish g (max_values ef) ls n - d))"
proof -
  from topological_sort_acyclic[OF w a] obtain order where
    ts: "topological_sort g = Inr order" and ok: "topo_ok (set (edges g)) {} order"
    and cover: "set order = set (nodes g)"
    by blast
  obtain es ef where fw: "forward_pass g durs order = (es, ef)"
    by (cases "forward_pass g durs order")
  obtain ls lf where bw: "backward_pass g durs (max_values ef) order = (ls, lf)"
    by (cases "backward_pass g durs (max_values ef) order")
  have len: "compute_critical_path_length g durs = Inr (max_values ef)"
    by (simp add: compute_critical_path_length_def ts fw)
  have crit: "compute_critical_path_activities g durs =
             Inr {n \<in> set (nodes g). map_of durs n \<noteq> None \<and>
                    \<bar>dict_get es n 0 - dict_get ls n (max_values ef)\<bar> < 1 / 100}"
    unfolding compute_critical_path_activities_def ts sum.case Let_def fw prod.case bw
      critical_set cover by (rule refl)
  have fold_fw: "fold (forward_step g durs) order ([], []) = (es, ef)"
    using fw unfolding forward_pass_def .
  have fold_bw: "foldr (backward_step g durs (max_values ef)) order ([], []) = (ls, lf)"
    using bw unfolding backward_pass_def foldr_conv_fold .
  have rec: "map_of es n = Some (spec_earliest_start g ef n) \<and>
             map_of ef n = Some (spec_earliest_start g ef n + d) \<and>
             map_of lf n = Some (spec_latest_finish g (max_values ef) ls n) \<and>
             map_of ls n = Some (spec_latest_finish g (max_values ef) ls n - d)"
    if "n \<in> set (nodes g) \<and> map_of durs n = Some d" for n d
  proof -
    from that have n: "n \<in> set order" and d: "map_of durs n = Some d" using cover by simp_all
    from forward_recurrence[OF ok n d, of "([], [])"]
      backward_recurrence[OF ok n d, of "max_values ef" "([], [])"]
    show ?thesis unfolding fold_fw fold_bw fst_conv snd_conv by simp
  qed
  have dist: "distinct order" using topo_ok_distinct[OF ok] by simp
  from ts cover dist fw bw len crit rec show ?thesis by blast
qed

text \<open>
  C7. For the two activities A (5 days) and B (3 days, after A) the project finish is 8,
  A and B are both on the critical path, and the float \<open>LS - ES\<close> of each is 0. In
  general, for every well-formed acyclic graph (every graph that \<open>build_graph\<close> makes
  is well formed) and every assignment of durations: the topological sort succeeds
  and lists every node once; the project finish is the largest earliest finish; every
  node that has a duration gets \<open>ES = \<close> the largest \<open>EF\<close> of its predecessors (0 when it
  has none), \<open>EF = ES + \<close> duration, \<open>LF = \<close> the smallest \<open>LS\<close> of its successors (the project
  finish when it has none) and \<open>LS = LF - \<close> duration, all read in the final dictionaries;
  and the critical activities are exactly the nodes with a duration and
  \<open>|ES - LS| < 0.01\<close>.
\<close>

theorem critical_path_method:
  assumes "wf_digraph g" and "acyclic (set (edges g))"
  shows "compute_critical_path_length (build_graph (activities_dict chain_activities))
           [(''A'', 5), (''B'', 3)] = Inr 8 \<and>
         compute_critical_path_activities (build_graph (activities_dict chain_activities))
           [(''A'', 5), (''B'', 3)] = Inr {''A'', ''B''} \<and>
         (\<exists>es ef ls lf.
            forward_pass (build_graph (activities_dict chain_activities))
              [(''A'', 5), (''B'', 3)] [''A'', ''B''] = (es, ef) \<and>
            backward_pass (build_graph (activities_dict chain_activities))
              [(''A'', 5), (''B'', 3)] 8 [''A'', ''B''] = (ls, lf) \<and>
            dict_get ls ''A'' 8 - dict_get es ''A'' 0 = 0 \<and>
            dict_get ls ''B'' 8 - dict_get es ''B'' 0 = 0) \<and>
         (\<exists>order es ef ls lf.
            topological_sort g = Inr order \<and> set order = set (nodes g) \<and> distinct order \<and>
            forward_pass g durs order = (es, ef) \<and>
            backward_pass g durs (max_values ef) order = (ls, lf) \<and>
            compute_critical_path_length g durs = Inr (max_values ef) \<and>
            compute_critical_path_activities g durs =
              Inr {n \<in> set (nodes g). map_of durs n \<noteq> None \<and>
                     \<bar>dict_get es n 0 - dict_get ls n (max_values ef)\<bar> < 1 / 100} \<and>
            (\<forall>n d. n \<in> set (nodes g) \<and> map_of durs n = Some d \<longrightarrow>
               map_of es n = Some (spec_earliest_start g ef n) \<and>
               map_of ef n = Some (spec_earliest_start g ef n + d) \<and>
               map_of lf n = Some (spec_latest_finish g (max_values ef) ls n) \<and>
               map_of ls n = Some (spec_latest_finish g (max_values ef) ls n - d)))"
proof -
  have 1: "compute_critical_path_length (build_graph (activities_dict chain_activities))
             [(''A'', 5), (''B'', 3)] = Inr 8"
    unfolding build_chain by (rule chain_length)
  have 2: "compute_critical_path_activities (build_graph (activities_dict chain_activities))
             [(''A'', 5), (''B'', 3)] = Inr {''A'', ''B''}"
    unfolding build_chain by (rule chain_critical)
  have 3: "\<exists>es ef ls lf.
            forward_pass (build_graph (activities_dict chain_activities))
              [(''A'', 5), (''B'', 3)] [''A'', ''B''] = (es, ef) \<and>
            backward_pass (build_graph (activities_dict chain_activities))
              [(''A'', 5), (''B'', 3)] 8 [''A'', ''B''] = (ls, lf) \<and>
            dict_get ls ''A'' 8 - dict_get es ''A'' 0 = 0 \<and>
            dict_get ls ''B'' 8 - dict_get es ''B'' 0 = 0"
    unfolding build_chain chain_forward chain_backward by (simp add: dict_get_def)
  from 1 2 3 critical_path_recurrences[OF assms, of durs] show ?thesis by blast
qed

theorem critical_path_method_witness:
  "wf_digraph chain_graph \<and> acyclic (set (edges chain_graph)) \<and>
   (\<exists>es ef ls lf.
      forward_pass chain_graph [(''A'', 5), (''B'', 3)] [''A'', ''B''] = (es, ef) \<and>
      max_values ef = 8 \<and>
      backward_pass chain_graph [(''A'', 5), (''B'', 3)] 8 [''A'', ''B''] = (ls, lf) \<and>
      map_of es ''B'' = Some (spec_earliest_start chain_graph ef ''B'') \<and>
      spec_earliest_start chain_graph ef ''B'' = 5 \<and>
      map_of lf ''A'' = Some (spec_latest_finish chain_graph 8 ls ''A'') \<and>
      spec_latest_finish chain_graph 8 ls ''A'' = 5 \<and>
      map_of ls ''A'' = Some 0 \<and> map_of es ''A'' = Some 0 \<and>
      compute_critical_path_activities chain_graph [(''A'', 5), (''B'', 3)] =
        Inr {n \<in> set (nodes chain_graph).
               map_of ([(''A'', 5), (''B'', 3)] :: (string \<times> real) list) n \<noteq> None \<and>
               \<bar>dict_get es n 0 - dict_get ls n 8\<bar> < 1 / 100})"
proof -
  let ?D = "[(''A'', 5), (''B'', 3)] :: (string \<times> real) list"
  from critical_path_method[OF wf_chain_graph acyclic_chain_graph, of ?D]
  obtain order es ef ls lf where
    ts: "topological_sort chain_graph = Inr order"
    and fw: "forward_pass chain_graph ?D order = (es, ef)"
    and bw: "backward_pass chain_graph ?D (max_values ef) order = (ls, lf)"
    and crit: "compute_critical_path_activities chain_graph ?D =
              Inr {n \<in> set (nodes chain_graph). map_of ?D n \<noteq> None \<and>
                     \<bar>dict_get es n 0 - dict_get ls n (max_values ef)\<bar> < 1 / 100}"
    and rec: "\<forall>n d. n \<in> set (nodes chain_graph) \<and> map_of ?D n = Some d \<longrightarrow>
               map_of es n = Some (spec_earliest_start chain_graph ef n) \<and>
               map_of ef n = Some (spec_earliest_start chain_graph ef n + d) \<and>
               map_of lf n = Some (spec_latest_finish chain_graph (max_values ef) ls n) \<and>
               map_of ls n = Some (spec_latest_finish chain_graph (max_values ef) ls n - d)"
    by blast
  have order: "order = [''A'', ''B'']" using ts unfolding topo_chain by simp
  have es: "es = [(''A'', 0), (''B'', 5)]" and ef: "ef = [(''A'', 5), (''B'', 8)]"
    using fw unfolding order chain_forward by simp_all
  have mv: "max_values ef = 8" unfolding ef by (simp add: max_values_def)
  have ls: "ls = [(''B'', 5), (''A'', 0)]" and lf: "lf = [(''B'', 8), (''A'', 5)]"
    using bw unfolding order mv chain_backward by simp_all
  have A: "''A'' \<in> set (nodes chain_graph) \<and> map_of ?D ''A'' = Some 5"
    and B: "''B'' \<in> set (nodes chain_graph) \<and> map_of ?D ''B'' = Some 3"
    by (simp_all add: chain_graph_def)
  from rec[THEN spec, of "''A''", THEN spec, of 5] A
  have rA: "map_of lf ''A'' = Some (spec_latest_finish chain_graph 8 ls ''A'')"
    unfolding mv by blast
  from rec[THEN spec, of "''B''", THEN spec, of 3] B
  have rB: "map_of es ''B'' = Some (spec_earliest_start chain_graph ef ''B'')"
    by blast
  have vB: "spec_earliest_start chain_graph ef ''B'' = 5"
    using rB unfolding es by simp
  have vA: "spec_latest_finish chain_graph 8 ls ''A'' = 5"
    using rA unfolding lf by simp
  have m: "map_of ls ''A'' = Some 0" "map_of es ''A'' = Some 0"
    unfolding ls es by simp_all
  show ?thesis
    using wf_chain_graph acyclic_chain_graph fw[unfolded order] mv bw[unfolded order mv]
      rB vB rA vA m crit[unfolded mv]
    by blast
qed

end
